theory Spec2Isabelle
  imports Main "HOL-Library.Sublist"
begin

section \<open>Tag Filter (src/services/live-detector.ts)\<close>

text \<open>
  \<^verbatim>\<open>LIVE_TAG_PATTERN = /#live\b/i\<close> and \<^verbatim>\<open>containsLiveTag(d) = LIVE_TAG_PATTERN.test(d)\<close>.
  The pattern is a sequence of literal characters and one word-boundary assertion, so the
  regular-expression engine is modelled for exactly that fragment: items are matched left
  to right at a start position, and \<^verbatim>\<open>test\<close> tries every start position from the left
  (the pattern has no \<^verbatim>\<open>g\<close> or \<^verbatim>\<open>y\<close> flag, so \<^verbatim>\<open>lastIndex\<close> plays no role).
  A description is a \<open>string\<close>; a code unit outside ASCII is neither a word character nor
  equal, after canonicalisation, to a character of the pattern.
\<close>

datatype regex_item = Lit char | WordBoundary

definition isWordChar :: "char \<Rightarrow> bool" where
  \<comment> \<open>the class \<^verbatim>\<open>\w\<close>: A-Z, a-z, 0-9 and the underscore\<close>
  "isWordChar c = (let n = (of_char c :: nat) in
     (97 \<le> n \<and> n \<le> 122) \<or> (65 \<le> n \<and> n \<le> 90) \<or> (48 \<le> n \<and> n \<le> 57) \<or> n = 95)"

definition canonicalize :: "char \<Rightarrow> nat" where
  \<comment> \<open>the \<^verbatim>\<open>i\<close> flag without \<^verbatim>\<open>u\<close>: compare the upper-case code units; only a-z change
      among the code units that can equal an ASCII pattern character afterwards\<close>
  "canonicalize c = (let n = (of_char c :: nat) in
     if 97 \<le> n \<and> n \<le> 122 then n - 32 else n)"

fun isWordAt :: "char option \<Rightarrow> bool" where
  "isWordAt None = False"
| "isWordAt (Some c) = isWordChar c"

fun nextChar :: "string \<Rightarrow> char option" where
  "nextChar [] = None"
| "nextChar (c # cs) = Some c"

fun matchItems :: "regex_item list \<Rightarrow> char option \<Rightarrow> string \<Rightarrow> bool" where
  "matchItems [] prev s = True"
| "matchItems (Lit p # ps) prev [] = False"
| "matchItems (Lit p # ps) prev (c # cs) =
     (canonicalize c = canonicalize p \<and> matchItems ps (Some c) cs)"
| "matchItems (WordBoundary # ps) prev s =
     (isWordAt prev \<noteq> isWordAt (nextChar s) \<and> matchItems ps prev s)"

fun regexTestFrom :: "regex_item list \<Rightarrow> char option \<Rightarrow> string \<Rightarrow> bool" where
  "regexTestFrom ps prev [] = matchItems ps prev []"
| "regexTestFrom ps prev (c # cs) =
     (matchItems ps prev (c # cs) \<or> regexTestFrom ps (Some c) cs)"

definition regexTest :: "regex_item list \<Rightarrow> string \<Rightarrow> bool" where
  "regexTest ps s = regexTestFrom ps None s"

definition LIVE_TAG_PATTERN :: "regex_item list" where
  "LIVE_TAG_PATTERN =
     [Lit (CHR ''#''), Lit (CHR ''l''), Lit (CHR ''i''), Lit (CHR ''v''), Lit (CHR ''e''),
      WordBoundary]"

definition containsLiveTag :: "string \<Rightarrow> bool" where
  "containsLiveTag description = regexTest LIVE_TAG_PATTERN description"

subsection \<open>The marker token in the words of the specification\<close>

text \<open>
  The marker token is \<^verbatim>\<open>#live\<close> in any letter case. An occurrence of the token in a
  description is recorded with the characters next to it (\<open>None\<close> at either end of the
  text). The token occurs as a separate word when no letter, digit or underscore touches
  it on either side; it occurs only inside a longer word when it occurs and every
  occurrence is touched by such a character on some side.
\<close>

definition isMarkerToken :: "string \<Rightarrow> bool" where
  "isMarkerToken t = (case t of
       [c0, c1, c2, c3, c4] \<Rightarrow>
         c0 = CHR ''#'' \<and> (c1 = CHR ''l'' \<or> c1 = CHR ''L'') \<and> (c2 = CHR ''i'' \<or> c2 = CHR ''I'')
         \<and> (c3 = CHR ''v'' \<or> c3 = CHR ''V'') \<and> (c4 = CHR ''e'' \<or> c4 = CHR ''E'')
     | _ \<Rightarrow> False)"

fun tokenOccurrences :: "char option \<Rightarrow> string \<Rightarrow> (char option \<times> char option) list" where
  "tokenOccurrences prev [] = []"
| "tokenOccurrences prev (c # cs) =
     (if isMarkerToken (take 5 (c # cs)) then [(prev, nextChar (drop 5 (c # cs)))] else [])
     @ tokenOccurrences (Some c) cs"

definition spec_separate_word :: "string \<Rightarrow> bool" where
  "spec_separate_word d =
     list_ex (\<lambda>(pc, nc). \<not> isWordAt pc \<and> \<not> isWordAt nc) (tokenOccurrences None d)"

definition spec_only_inside_longer_word :: "string \<Rightarrow> bool" where
  "spec_only_inside_longer_word d =
     (tokenOccurrences None d \<noteq> [] \<and>
      list_all (\<lambda>(pc, nc). isWordAt pc \<or> isWordAt nc) (tokenOccurrences None d))"

section \<open>Data model (src/types, src/config/index.ts)\<close>

record PlatformLinks =
  link_youtube :: string
  link_x :: string
  link_kick :: string
  link_twitch :: string
  link_instagram :: string
  link_linkedin :: string

record VideoMetadata =
  video_id :: string
  title :: string
  description :: string
  publishedAt :: string
  thumbnailUrl :: "string option"
  channelTitle :: string
  channelId :: string

record LivestreamNotification =
  video :: VideoMetadata
  platforms :: PlatformLinks
  detectedAt :: nat

record NotificationResult =
  success :: bool
  chatId :: string
  error :: "string option"
  timestamp :: nat

text \<open>
  The fields of \<^verbatim>\<open>AppConfig\<close> that the pipeline reads: \<^verbatim>\<open>youtube.channelId\<close>,
  \<^verbatim>\<open>youtube.apiKey\<close>, \<^verbatim>\<open>telegram.chatIds\<close>, \<^verbatim>\<open>platforms\<close> and \<^verbatim>\<open>server.webhookSecret\<close>.
\<close>

record AppConfig =
  youtube_channelId :: string
  youtube_apiKey :: string
  telegram_chatIds :: "string list"
  config_platforms :: PlatformLinks
  server_webhookSecret :: string

section \<open>The world outside the process\<close>

text \<open>
  Every call that leaves the process is an event of the trace: the commands sent to the
  key-value store, the HTTP requests of the Metadata Fetcher, the timers, and the messages
  handed to the messaging platform (destination, item identifier, delivered or not).
  The clock counts milliseconds and advances while the process sleeps (by what the timer
  waits, which is not always the delay asked for). Of the log lines the trace keeps one:
  the line that the Tag Filter writes for every video it examines (item identifier, tag
  found or not), which is all that a run of the filter leaves behind.
\<close>

subsection \<open>JavaScript numbers and timers\<close>

text \<open>
  A delay is a JavaScript number. The ones that occur here are integers or infinite
  (\<^verbatim>\<open>NaN\<close> is an absent value where it can arise), so a number is an \<open>int\<close> or an infinity.
  \<open>toNumber\<close> is the Number value of a mathematical integer: the integer itself up to
  \<open>2 ^ 53\<close>, and beyond that the nearest number with 53 significant bits, a tie going to the
  even one, and infinity from \<open>2 ^ 1024 - 2 ^ 970\<close> on. The product of two numbers is the
  Number value of the exact product.
  A timer set with a delay below 1 or above \<open>2 ^ 31 - 1\<close> fires after 1 ms.
\<close>

datatype number = Num int | PosInfinity | NegInfinity

function bitLength :: "int \<Rightarrow> nat" where
  "bitLength n = (if n \<le> 0 then 0 else Suc (bitLength (n div 2)))"
  by pat_completeness auto
termination
  by (relation "measure nat") auto

declare bitLength.simps [simp del]

definition roundToEven53 :: "int \<Rightarrow> int" where
  \<comment> \<open>a positive integer above \<open>2 ^ 53\<close> rounded to 53 significant bits\<close>
  "roundToEven53 m =
     (let e = bitLength m - 53; q = m div 2 ^ e; r = m mod 2 ^ e
      in (if 2 ^ e < 2 * r \<or> (2 * r = 2 ^ e \<and> odd q) then q + 1 else q) * 2 ^ e)"

definition toNumber :: "int \<Rightarrow> number" where
  "toNumber x =
     (if \<bar>x\<bar> \<le> 2 ^ 53 then Num x
      else let m = roundToEven53 \<bar>x\<bar>
           in if 2 ^ 1024 \<le> m then (if x < 0 then NegInfinity else PosInfinity)
              else Num (if x < 0 then - m else m))"

definition times1000 :: "number \<Rightarrow> number" where
  \<comment> \<open>\<^verbatim>\<open>y * 1000\<close>\<close>
  "times1000 y = (case y of
       Num n \<Rightarrow> toNumber (n * 1000)
     | PosInfinity \<Rightarrow> PosInfinity
     | NegInfinity \<Rightarrow> NegInfinity)"

definition isZero :: "number \<Rightarrow> bool" where
  "isZero y = (case y of Num n \<Rightarrow> n = 0 | _ \<Rightarrow> False)"

definition timerDelay :: "number \<Rightarrow> nat" where
  \<comment> \<open>how long \<^verbatim>\<open>setTimeout(f, delay)\<close> waits, in ms\<close>
  "timerDelay delay = (case delay of
       Num ms \<Rightarrow> if 1 \<le> ms \<and> ms \<le> 2147483647 then nat ms else 1
     | _ \<Rightarrow> 1)"

subsection \<open>Events, the world and the collaborators\<close>

datatype event =
    RedisExists string
  | RedisSetex string nat string
  | RedisDel string
  | AxiosGet string
  | Sleep number
  | SendMessage string string bool
  | LogLiveTag string bool

record world =
  now :: nat
  redis_keys :: "string \<rightharpoonup> string \<times> nat"
  trace :: "event list"

text \<open>The YouTube Data API as axios presents it.\<close>

record error_response =
  status :: nat
  retry_after :: "string option"

datatype request_error = AxiosError "error_response option" | OtherError string | ThrownUndefined

record thumbnails =
  high_url :: "string option"
  medium_url :: "string option"

record snippet =
  snippet_title :: string
  snippet_description :: string
  snippet_publishedAt :: string
  snippet_thumbnails :: "thumbnails option"
  snippet_channelTitle :: string
  snippet_channelId :: string

record video_item =
  item_snippet :: "snippet option"

record api_response =
  data_items :: "video_item list option"

text \<open>The feed as xml2js hands it over; an element of the entry array may be anything.\<close>

datatype feed_entry = NullEntry | Entry "string list option"

datatype entry_field = OneEntry "string list option" | EntryArray "feed_entry list"

record Feed =
  entry :: "entry_field option"

record WebSubPayload =
  feed :: "Feed option"

text \<open>
  The collaborators are oracles over the world, so an answer may depend on the time and on
  everything that happened before. \<open>redis_reachable\<close> says whether a command reaches the
  store; \<open>axios_get\<close> is the request for one video's snippet; \<open>send_attempt\<close> is the body of
  the \<^verbatim>\<open>try\<close> block of \<^verbatim>\<open>sendToChatWithRetry\<close> (render the message, hand it to the bot
  API): \<open>None\<close> when it returns, the message of the error when it throws;
  \<open>parseStringPromise\<close> is the XML parser: \<open>Inl\<close> when it rejects, else the parsed value,
  \<open>None\<close> for \<^verbatim>\<open>null\<close>.
\<close>

record env =
  redis_reachable :: "world \<Rightarrow> bool"
  axios_get :: "string \<Rightarrow> world \<Rightarrow> request_error + api_response"
  send_attempt :: "string \<Rightarrow> LivestreamNotification \<Rightarrow> world \<Rightarrow> string option"
  parseStringPromise :: "string \<Rightarrow> unit + WebSubPayload option"

definition sleep :: "number \<Rightarrow> world \<Rightarrow> world" where
  \<comment> \<open>\<^verbatim>\<open>new Promise(resolve => setTimeout(resolve, ms))\<close>, awaited\<close>
  "sleep ms w = w\<lparr>now := now w + timerDelay ms, trace := trace w @ [Sleep ms]\<rparr>"

definition advance :: "nat \<Rightarrow> world \<Rightarrow> world" where
  \<comment> \<open>the controllable clock: time passes and nothing else happens\<close>
  "advance ms w = w\<lparr>now := now w + ms\<rparr>"

section \<open>Duplicate Suppressor (src/utils/deduplication.ts)\<close>

definition KEY_PREFIX :: string where
  "KEY_PREFIX = ''youtube-livestream:''"

definition TTL_SECONDS :: nat where
  "TTL_SECONDS = 24 * 60 * 60"

text \<open>
  Modelled from the spec: the backing key-value store is an external server, reached through
  a client library, and none of its code is in the repository. A key maps to a value and
  the time at which it expires; \<^verbatim>\<open>SETEX key seconds value\<close> makes the key expire
  \<open>seconds\<close> after the command, \<^verbatim>\<open>EXISTS key\<close> answers 1 while the key is there and its
  window has not elapsed and 0 afterwards, \<^verbatim>\<open>DEL key\<close> removes it. A command that does not
  reach the store raises an error and changes nothing.
\<close>

definition redis_live :: "world \<Rightarrow> string \<Rightarrow> bool" where
  \<comment> \<open>Modelled from the spec: a key is there until its window has elapsed\<close>
  "redis_live w k = (case redis_keys w k of None \<Rightarrow> False | Some (v, expiry) \<Rightarrow> now w \<le> expiry)"

definition redis_exists :: "env \<Rightarrow> string \<Rightarrow> world \<Rightarrow> (unit + nat) \<times> world" where
  \<comment> \<open>Modelled from the spec: \<^verbatim>\<open>EXISTS\<close> of the external store\<close>
  "redis_exists env k w =
     (let w1 = w\<lparr>trace := trace w @ [RedisExists k]\<rparr>
      in if redis_reachable env w then (Inr (if redis_live w k then 1 else 0), w1)
         else (Inl (), w1))"

definition redis_setex :: "env \<Rightarrow> string \<Rightarrow> nat \<Rightarrow> string \<Rightarrow> world \<Rightarrow> (unit + unit) \<times> world" where
  \<comment> \<open>Modelled from the spec: \<^verbatim>\<open>SETEX\<close> of the external store, a fixed time-to-live\<close>
  "redis_setex env k seconds v w =
     (let w1 = w\<lparr>trace := trace w @ [RedisSetex k seconds v]\<rparr>
      in if redis_reachable env w
         then (Inr (), w1\<lparr>redis_keys := (redis_keys w)(k \<mapsto> (v, now w + seconds * 1000))\<rparr>)
         else (Inl (), w1))"

definition redis_del :: "env \<Rightarrow> string \<Rightarrow> world \<Rightarrow> (unit + unit) \<times> world" where
  \<comment> \<open>Modelled from the spec: \<^verbatim>\<open>DEL\<close> of the external store\<close>
  "redis_del env k w =
     (let w1 = w\<lparr>trace := trace w @ [RedisDel k]\<rparr>
      in if redis_reachable env w
         then (Inr (), w1\<lparr>redis_keys := (redis_keys w)(k := None)\<rparr>)
         else (Inl (), w1))"

definition hasBeenNotified :: "env \<Rightarrow> string \<Rightarrow> world \<Rightarrow> bool \<times> world" where
  "hasBeenNotified env videoId w =
     (case redis_exists env (KEY_PREFIX @ videoId) w of
        (Inr result, w1) \<Rightarrow> (result = 1, w1)
      | (Inl err, w1) \<Rightarrow> (False, w1))"

definition markAsNotified :: "env \<Rightarrow> string \<Rightarrow> world \<Rightarrow> world" where
  "markAsNotified env videoId w =
     (case redis_setex env (KEY_PREFIX @ videoId) TTL_SECONDS ''1'' w of
        (Inr u, w1) \<Rightarrow> w1
      | (Inl err, w1) \<Rightarrow> w1)"

definition clearNotification :: "env \<Rightarrow> string \<Rightarrow> world \<Rightarrow> world" where
  "clearNotification env videoId w =
     (case redis_del env (KEY_PREFIX @ videoId) w of
        (Inr u, w1) \<Rightarrow> w1
      | (Inl err, w1) \<Rightarrow> w1)"


section \<open>Metadata Fetcher (src/services/youtube.ts)\<close>

definition YT_MAX_RETRIES :: nat where
  "YT_MAX_RETRIES = 3"

definition YT_RETRY_DELAY_MS :: nat where
  "YT_RETRY_DELAY_MS = 1000"

subsection \<open>\<^verbatim>\<open>parseInt(s, 10)\<close> and the decimal form of a number\<close>

text \<open>
  \<^verbatim>\<open>parseInt\<close> skips leading white space, reads an optional sign and the longest run of
  decimal digits, and ignores what follows; without a digit the result is \<^verbatim>\<open>NaN\<close>, here
  \<open>None\<close>. \<open>mathInt10\<close> is the integer the digits denote and \<open>parseInt10\<close> its Number value,
  correctly rounded (the language lets an implementation read the digits after the
  twentieth as zeros; the engines round correctly).
\<close>

definition isStrWhiteSpace :: "char \<Rightarrow> bool" where
  "isStrWhiteSpace c = (let n = (of_char c :: nat) in (9 \<le> n \<and> n \<le> 13) \<or> n = 32 \<or> n = 160)"

definition isDigit :: "char \<Rightarrow> bool" where
  "isDigit c = (let n = (of_char c :: nat) in 48 \<le> n \<and> n \<le> 57)"

definition digitsValue :: "string \<Rightarrow> int" where
  "digitsValue ds = foldl (\<lambda>acc c. 10 * acc + (int (of_char c) - 48)) 0 ds"

definition mathInt10 :: "string \<Rightarrow> int option" where
  "mathInt10 s =
     (let t = dropWhile isStrWhiteSpace s;
          (sign, u) = (case t of
                         [] \<Rightarrow> (1, t)
                       | c # r \<Rightarrow> if c = CHR ''-'' then (- 1, r)
                                  else if c = CHR ''+'' then (1, r) else (1, t));
          ds = takeWhile isDigit u
      in if ds = [] then None else Some (sign * digitsValue ds))"

definition parseInt10 :: "string \<Rightarrow> number option" where
  "parseInt10 s = map_option toNumber (mathInt10 s)"

fun decimal :: "nat \<Rightarrow> string" where
  "decimal n = (if n < 10 then [char_of (48 + n)]
                else decimal (n div 10) @ [char_of (48 + n mod 10)])"

declare decimal.simps [simp del]

subsection \<open>The delays of \<^verbatim>\<open>makeRequestWithRetry\<close>\<close>

definition isRateLimited :: "request_error \<Rightarrow> bool" where
  \<comment> \<open>\<^verbatim>\<open>axios.isAxiosError(error) && error.response?.status === 429\<close>\<close>
  "isRateLimited e = (case e of AxiosError (Some r) \<Rightarrow> status r = 429 | _ \<Rightarrow> False)"

definition retryAfterHeader :: "request_error \<Rightarrow> string option" where
  \<comment> \<open>\<^verbatim>\<open>error.response.headers['retry-after']\<close>\<close>
  "retryAfterHeader e = (case e of AxiosError (Some r) \<Rightarrow> retry_after r | _ \<Rightarrow> None)"

definition retryAfter :: "string option \<Rightarrow> string" where
  \<comment> \<open>\<^verbatim>\<open>headers['retry-after'] || this.RETRY_DELAY_MS\<close>, as the string \<^verbatim>\<open>parseInt\<close> reads:
      a missing or empty header gives way to the number, whose string is its decimal form\<close>
  "retryAfter header = (case header of
       None \<Rightarrow> decimal YT_RETRY_DELAY_MS
     | Some h \<Rightarrow> if h = [] then decimal YT_RETRY_DELAY_MS else h)"

definition rateLimitDelay :: "string option \<Rightarrow> nat \<Rightarrow> number" where
  \<comment> \<open>\<^verbatim>\<open>parseInt(retryAfter, 10) * 1000 || this.RETRY_DELAY_MS * attempt\<close>:
      \<^verbatim>\<open>NaN\<close> and 0 are falsy\<close>
  "rateLimitDelay header attempt =
     (case parseInt10 (retryAfter header) of
        None \<Rightarrow> Num (int (YT_RETRY_DELAY_MS * attempt))
      | Some y \<Rightarrow> if isZero (times1000 y) then Num (int (YT_RETRY_DELAY_MS * attempt))
                  else times1000 y)"

definition genericDelay :: "nat \<Rightarrow> number" where
  \<comment> \<open>\<^verbatim>\<open>this.RETRY_DELAY_MS * attempt\<close>\<close>
  "genericDelay attempt = Num (int (YT_RETRY_DELAY_MS * attempt))"

definition retryDelay :: "request_error \<Rightarrow> nat \<Rightarrow> number option" where
  \<comment> \<open>the delay slept after a failed attempt; \<open>None\<close> when the loop does not sleep\<close>
  "retryDelay e attempt =
     (if isRateLimited e then Some (rateLimitDelay (retryAfterHeader e) attempt)
      else if attempt < YT_MAX_RETRIES then Some (genericDelay attempt)
      else None)"

function makeRequestWithRetry_from ::
  "(world \<Rightarrow> (request_error + 'a) \<times> world) \<Rightarrow> nat \<Rightarrow> request_error option \<Rightarrow> world
     \<Rightarrow> (request_error + 'a) \<times> world" where
  "makeRequestWithRetry_from requestFn attempt lastError w =
     (if attempt \<le> YT_MAX_RETRIES then
        (case requestFn w of
           (Inr r, w1) \<Rightarrow> (Inr r, w1)
         | (Inl e, w1) \<Rightarrow>
             (case retryDelay e attempt of
                Some delay \<Rightarrow>
                  makeRequestWithRetry_from requestFn (attempt + 1) (Some e) (sleep delay w1)
              | None \<Rightarrow> makeRequestWithRetry_from requestFn (attempt + 1) (Some e) w1))
      else (case lastError of
              Some e \<Rightarrow> (Inl e, w)
            | None \<Rightarrow> (Inl ThrownUndefined, w)))"
  by pat_completeness auto
termination
  by (relation "measure (\<lambda>(requestFn, attempt, lastError, w). YT_MAX_RETRIES + 1 - attempt)") auto

declare makeRequestWithRetry_from.simps [simp del]

definition makeRequestWithRetry ::
  "(world \<Rightarrow> (request_error + 'a) \<times> world) \<Rightarrow> world \<Rightarrow> (request_error + 'a) \<times> world" where
  "makeRequestWithRetry requestFn w = makeRequestWithRetry_from requestFn 1 None w"

definition videosRequest :: "env \<Rightarrow> string \<Rightarrow> world \<Rightarrow> (request_error + api_response) \<times> world" where
  \<comment> \<open>the closure passed by \<^verbatim>\<open>getVideoMetadata\<close>: one \<^verbatim>\<open>axios.get\<close> of the videos endpoint\<close>
  "videosRequest env videoId w = (axios_get env videoId w, w\<lparr>trace := trace w @ [AxiosGet videoId]\<rparr>)"

definition thumbnailOf :: "snippet \<Rightarrow> string option" where
  \<comment> \<open>\<^verbatim>\<open>snippet.thumbnails?.high?.url || snippet.thumbnails?.medium?.url\<close>\<close>
  "thumbnailOf sn = (case snippet_thumbnails sn of
       None \<Rightarrow> None
     | Some t \<Rightarrow> (case high_url t of
                    Some u \<Rightarrow> if u = [] then medium_url t else Some u
                  | None \<Rightarrow> medium_url t))"

definition metadataOf :: "string \<Rightarrow> api_response \<Rightarrow> VideoMetadata option" where
  \<comment> \<open>no items: not found; an item without a snippet: the \<^verbatim>\<open>TypeError\<close> is caught, \<^verbatim>\<open>null\<close>\<close>
  "metadataOf videoId response =
     (case data_items response of
        None \<Rightarrow> None
      | Some [] \<Rightarrow> None
      | Some (item # rest) \<Rightarrow>
          (case item_snippet item of
             None \<Rightarrow> None
           | Some sn \<Rightarrow>
               Some \<lparr>video_id = videoId, title = snippet_title sn,
                     description = snippet_description sn, publishedAt = snippet_publishedAt sn,
                     thumbnailUrl = thumbnailOf sn, channelTitle = snippet_channelTitle sn,
                     channelId = snippet_channelId sn\<rparr>))"

definition getVideoMetadata :: "env \<Rightarrow> string \<Rightarrow> world \<Rightarrow> VideoMetadata option \<times> world" where
  "getVideoMetadata env videoId w =
     (case makeRequestWithRetry (videosRequest env videoId) w of
        (Inr response, w1) \<Rightarrow> (metadataOf videoId response, w1)
      | (Inl err, w1) \<Rightarrow> (None, w1))"

definition shouldNotifyForVideo :: "VideoMetadata \<Rightarrow> world \<Rightarrow> bool \<times> world" where
  \<comment> \<open>src/services/live-detector.ts: the answer, logged at level info or debug\<close>
  "shouldNotifyForVideo videoMetadata w =
     (let hasLiveTag = containsLiveTag (description videoMetadata)
      in (hasLiveTag, w\<lparr>trace := trace w @ [LogLiveTag (video_id videoMetadata) hasLiveTag]\<rparr>))"

section \<open>Delivery Fan-out (src/services/telegram.ts)\<close>

definition TG_MAX_RETRIES :: nat where
  "TG_MAX_RETRIES = 3"

definition TG_RETRY_DELAY_MS :: nat where
  "TG_RETRY_DELAY_MS = 2000"

definition sendMessage :: "env \<Rightarrow> string \<Rightarrow> LivestreamNotification \<Rightarrow> world \<Rightarrow> string option \<times> world" where
  "sendMessage env chat notification w =
     (let r = send_attempt env chat notification w
      in (r, w\<lparr>trace := trace w @ [SendMessage chat (video_id (video notification)) (r = None)]\<rparr>))"

definition errorText :: "string option \<Rightarrow> string" where
  \<comment> \<open>\<^verbatim>\<open>lastError?.message || 'Unknown error'\<close>\<close>
  "errorText lastError = (case lastError of
       None \<Rightarrow> ''Unknown error''
     | Some m \<Rightarrow> if m = [] then ''Unknown error'' else m)"

function sendToChatWithRetry_from ::
  "env \<Rightarrow> string \<Rightarrow> LivestreamNotification \<Rightarrow> nat \<Rightarrow> nat \<Rightarrow> string option \<Rightarrow> world
     \<Rightarrow> NotificationResult \<times> world" where
  "sendToChatWithRetry_from env chat notification stamp attempt lastError w =
     (if attempt \<le> TG_MAX_RETRIES then
        (case sendMessage env chat notification w of
           (None, w1) \<Rightarrow> (\<lparr>success = True, chatId = chat, error = None, timestamp = stamp\<rparr>, w1)
         | (Some m, w1) \<Rightarrow>
             (if attempt < TG_MAX_RETRIES
              then sendToChatWithRetry_from env chat notification stamp (attempt + 1) (Some m)
                     (sleep (Num (int (TG_RETRY_DELAY_MS * attempt))) w1)
              else sendToChatWithRetry_from env chat notification stamp (attempt + 1) (Some m) w1))
      else (\<lparr>success = False, chatId = chat, error = Some (errorText lastError),
              timestamp = stamp\<rparr>, w))"
  by pat_completeness auto
termination
  by (relation "measure (\<lambda>(env, chat, notification, stamp, attempt, lastError, w).
        TG_MAX_RETRIES + 1 - attempt)") auto

declare sendToChatWithRetry_from.simps [simp del]

definition sendToChatWithRetry ::
  "env \<Rightarrow> string \<Rightarrow> LivestreamNotification \<Rightarrow> world \<Rightarrow> NotificationResult \<times> world" where
  "sendToChatWithRetry env chat notification w =
     sendToChatWithRetry_from env chat notification (now w) 1 None w"

fun sendToChats ::
  "env \<Rightarrow> string list \<Rightarrow> LivestreamNotification \<Rightarrow> NotificationResult list \<Rightarrow> world
     \<Rightarrow> NotificationResult list \<times> world" where
  "sendToChats env [] notification results w = (results, w)"
| "sendToChats env (chat # chats) notification results w =
     (case sendToChatWithRetry env chat notification w of
        (result, w1) \<Rightarrow> sendToChats env chats notification (results @ [result]) w1)"

definition sendLivestreamNotification ::
  "AppConfig \<Rightarrow> env \<Rightarrow> LivestreamNotification \<Rightarrow> world \<Rightarrow> NotificationResult list \<times> world" where
  "sendLivestreamNotification cfg env notification w =
     sendToChats env (telegram_chatIds cfg) notification [] w"

section \<open>Feed Ingestion Controller (src/handlers/websub.ts)\<close>

record http_reply =
  reply_status :: nat
  reply_text :: string

record post_request =
  hub_signature :: "string option"
  body_text :: "string option"

record verification_query =
  hub_challenge :: "string option"
  hub_mode :: "string option"
  hub_topic :: "string option"

definition TOPIC_URL :: "AppConfig \<Rightarrow> string" where
  "TOPIC_URL cfg = ''https://www.youtube.com/xml/feeds/videos.xml?channel_id='' @ youtube_channelId cfg"

definition handleSubscriptionVerification :: "AppConfig \<Rightarrow> verification_query \<Rightarrow> http_reply" where
  "handleSubscriptionVerification cfg q =
     (if hub_mode q = Some ''subscribe'' \<and> hub_topic q = Some (TOPIC_URL cfg)
      then \<lparr>reply_status = 200,
            reply_text = (case hub_challenge q of None \<Rightarrow> [] | Some ch \<Rightarrow> ch)\<rparr>
      else \<lparr>reply_status = 400, reply_text = ''Invalid request''\<rparr>)"

definition parseXmlPayload :: "env \<Rightarrow> string \<Rightarrow> WebSubPayload option" where
  "parseXmlPayload env xmlString =
     (case parseStringPromise env xmlString of Inr result \<Rightarrow> result | Inl err \<Rightarrow> None)"

definition entryVideoId :: "feed_entry \<Rightarrow> unit + string option" where
  \<comment> \<open>\<^verbatim>\<open>entry['yt:videoId']?.[0]\<close>: reading a property of \<^verbatim>\<open>null\<close> throws\<close>
  "entryVideoId e = (case e of
       NullEntry \<Rightarrow> Inl ()
     | Entry None \<Rightarrow> Inr None
     | Entry (Some []) \<Rightarrow> Inr None
     | Entry (Some (v # vs)) \<Rightarrow> Inr (Some v))"

definition processFeedEntry_try :: "AppConfig \<Rightarrow> env \<Rightarrow> feed_entry \<Rightarrow> world \<Rightarrow> (unit + unit) \<times> world" where
  \<comment> \<open>the body of the \<^verbatim>\<open>try\<close> block: \<open>Inl\<close> when it throws\<close>
  "processFeedEntry_try cfg env e w =
     (case entryVideoId e of
        Inl err \<Rightarrow> (Inl err, w)
      | Inr None \<Rightarrow> (Inr (), w)
      | Inr (Some videoId) \<Rightarrow>
          if videoId = [] then (Inr (), w)
          else
            (case hasBeenNotified env videoId w of
               (True, w1) \<Rightarrow> (Inr (), w1)
             | (False, w1) \<Rightarrow>
                 (case getVideoMetadata env videoId w1 of
                    (None, w2) \<Rightarrow> (Inr (), w2)
                  | (Some videoMetadata, w2) \<Rightarrow>
                      (case shouldNotifyForVideo videoMetadata w2 of
                         (False, w3) \<Rightarrow> (Inr (), w3)
                       | (True, w3) \<Rightarrow>
                           (let notification =
                                  \<lparr>video = videoMetadata, platforms = config_platforms cfg,
                                   detectedAt = now w3\<rparr>
                            in case sendLivestreamNotification cfg env notification w3 of
                                 (results, w4) \<Rightarrow> (Inr (), markAsNotified env videoId w4))))))"

definition processFeedEntry :: "AppConfig \<Rightarrow> env \<Rightarrow> feed_entry \<Rightarrow> world \<Rightarrow> world" where
  \<comment> \<open>the \<^verbatim>\<open>catch\<close> logs the error and returns\<close>
  "processFeedEntry cfg env e w =
     (case processFeedEntry_try cfg env e w of
        (Inr u, w1) \<Rightarrow> w1
      | (Inl err, w1) \<Rightarrow> w1)"

fun processEntries :: "AppConfig \<Rightarrow> env \<Rightarrow> feed_entry list \<Rightarrow> world \<Rightarrow> world" where
  "processEntries cfg env [] w = w"
| "processEntries cfg env (e # es) w = processEntries cfg env es (processFeedEntry cfg env e w)"

definition entriesOf :: "entry_field \<Rightarrow> feed_entry list" where
  \<comment> \<open>\<^verbatim>\<open>Array.isArray(entry) ? entry : [entry]\<close>\<close>
  "entriesOf ef = (case ef of EntryArray es \<Rightarrow> es | OneEntry v \<Rightarrow> [Entry v])"

definition handleWebSubCallback :: "AppConfig \<Rightarrow> env \<Rightarrow> post_request \<Rightarrow> world \<Rightarrow> http_reply \<times> world" where
  "handleWebSubCallback cfg env req w =
     (case body_text req of
        None \<Rightarrow> (\<lparr>reply_status = 500, reply_text = ''Internal Server Error''\<rparr>, w)
      | Some body \<Rightarrow>
          (case parseXmlPayload env body of
             None \<Rightarrow> (\<lparr>reply_status = 400, reply_text = ''Invalid payload''\<rparr>, w)
           | Some parsedData \<Rightarrow>
               (case feed parsedData of
                  None \<Rightarrow> (\<lparr>reply_status = 400, reply_text = ''Invalid payload''\<rparr>, w)
                | Some f \<Rightarrow>
                    (case entry f of
                       None \<Rightarrow> (\<lparr>reply_status = 400, reply_text = ''Invalid payload''\<rparr>, w)
                     | Some ef \<Rightarrow>
                         (\<lparr>reply_status = 200, reply_text = ''OK''\<rparr>,
                          processEntries cfg env (entriesOf ef) w)))))"


section \<open>Observing a run\<close>

text \<open>
  Counting the events of a kind in the trace of a world: a delivery is a message that the
  messaging platform accepted for a destination and an item; a mark is a \<^verbatim>\<open>SETEX\<close> of the
  item's key; a duplicate check is an \<^verbatim>\<open>EXISTS\<close>; a fetch is one request of the Metadata
  Fetcher; a tag check is one run of the Tag Filter.
\<close>

definition countEvents :: "(event \<Rightarrow> bool) \<Rightarrow> world \<Rightarrow> nat" where
  "countEvents P w = length (filter P (trace w))"

definition isDelivery :: "string \<Rightarrow> string \<Rightarrow> event \<Rightarrow> bool" where
  "isDelivery chat videoId e = (e = SendMessage chat videoId True)"

definition isMark :: "string \<Rightarrow> event \<Rightarrow> bool" where
  "isMark videoId e = (case e of RedisSetex k seconds v \<Rightarrow> k = KEY_PREFIX @ videoId | _ \<Rightarrow> False)"

definition isDupCheck :: "event \<Rightarrow> bool" where
  "isDupCheck e = (case e of RedisExists k \<Rightarrow> True | _ \<Rightarrow> False)"

definition isFetch :: "event \<Rightarrow> bool" where
  "isFetch e = (case e of AxiosGet v \<Rightarrow> True | _ \<Rightarrow> False)"

definition isAnyMark :: "event \<Rightarrow> bool" where
  \<comment> \<open>a mark of whatever item: one follows each fan-out\<close>
  "isAnyMark e = (case e of RedisSetex k seconds v \<Rightarrow> True | _ \<Rightarrow> False)"

definition isDeliveryTo :: "string \<Rightarrow> event \<Rightarrow> bool" where
  \<comment> \<open>a delivery to the destination, of whatever item\<close>
  "isDeliveryTo chat e = (case e of SendMessage c v ok \<Rightarrow> c = chat \<and> ok | _ \<Rightarrow> False)"

definition isTagCheck :: "event \<Rightarrow> bool" where
  \<comment> \<open>one run of the Tag Filter\<close>
  "isTagCheck e = (case e of LogLiveTag v found \<Rightarrow> True | _ \<Rightarrow> False)"

definition isSleep :: "event \<Rightarrow> bool" where
  "isSleep e = (case e of Sleep d \<Rightarrow> True | _ \<Rightarrow> False)"

text \<open>
  One metadata fetch is a round of up to three requests, and within a round every request
  but the first comes straight after a sleep. So the rounds of a trace are its requests
  that do not come straight after a sleep.
\<close>

fun roundStarts :: "bool \<Rightarrow> event list \<Rightarrow> nat" where
  "roundStarts afterSleep [] = 0"
| "roundStarts afterSleep (e # es) =
     (if isFetch e \<and> \<not> afterSleep then 1 else 0) + roundStarts (isSleep e) es"

definition fetchRounds :: "world \<Rightarrow> nat" where
  "fetchRounds w = roundStarts False (trace w)"

definition endsInSleep :: "bool \<Rightarrow> event list \<Rightarrow> bool" where
  \<comment> \<open>whether the next event would come straight after a sleep\<close>
  "endsInSleep afterSleep es = (if es = [] then afterSleep else isSleep (last es))"

definition hasEntryStructure :: "WebSubPayload option \<Rightarrow> bool" where
  \<comment> \<open>the body parsed, and the result has a feed with an entry\<close>
  "hasEntryStructure parsed = (case parsed of
       None \<Rightarrow> False
     | Some parsedData \<Rightarrow> (case feed parsedData of
                            None \<Rightarrow> False
                          | Some f \<Rightarrow> entry f \<noteq> None))"

section \<open>Example configurations, collaborators and payloads\<close>

definition cfg0 :: AppConfig where
  "cfg0 = \<lparr>youtube_channelId = ''UC1453'', youtube_apiKey = ''key'',
           telegram_chatIds = [''A'', ''B'', ''C''],
           config_platforms = \<lparr>link_youtube = ''https://youtube.com/@c'', link_x = ''https://x.com/c'',
             link_kick = ''https://kick.com/c'', link_twitch = ''https://twitch.tv/c'',
             link_instagram = ''https://instagram.com/c'', link_linkedin = ''https://linkedin.com/in/c''\<rparr>,
           server_webhookSecret = ''secret''\<rparr>"

definition world0 :: world where
  "world0 = \<lparr>now = 0, redis_keys = Map.empty, trace = []\<rparr>"

definition liveVideo :: api_response where
  "liveVideo = \<lparr>data_items = Some [\<lparr>item_snippet = Some
      \<lparr>snippet_title = ''Stream'', snippet_description = ''new episode #live today'',
       snippet_publishedAt = ''2025-01-01T18:00:00Z'', snippet_thumbnails = None,
       snippet_channelTitle = ''1453'', snippet_channelId = ''UC1453''\<rparr>\<rparr>]\<rparr>"

definition plainVideo :: api_response where
  "plainVideo = \<lparr>data_items = Some [\<lparr>item_snippet = Some
      \<lparr>snippet_title = ''Clip'', snippet_description = ''no tag here'',
       snippet_publishedAt = ''2025-01-01T18:00:00Z'', snippet_thumbnails = None,
       snippet_channelTitle = ''1453'', snippet_channelId = ''UC1453''\<rparr>\<rparr>]\<rparr>"

definition feedOf :: "feed_entry list \<Rightarrow> WebSubPayload" where
  "feedOf es = \<lparr>feed = Some \<lparr>entry = Some (EntryArray es)\<rparr>\<rparr>"

definition parseExamples :: "string \<Rightarrow> unit + WebSubPayload option" where
  \<comment> \<open>a parser that knows four bodies and rejects every other\<close>
  "parseExamples body =
     (if body = ''one'' then Inr (Some (feedOf [Entry (Some [''abc123''])]))
      else if body = ''twice'' then Inr (Some (feedOf [Entry (Some [''abc123'']), Entry (Some [''abc123''])]))
      else if body = ''odd'' then Inr (Some (feedOf [NullEntry, Entry None, Entry (Some [''abc123''])]))
      else if body = ''html'' then Inr (Some \<lparr>feed = None\<rparr>)
      else Inl ())"

definition env_healthy :: env where
  \<comment> \<open>everything works, except that destination B refuses every message\<close>
  "env_healthy = \<lparr>redis_reachable = (\<lambda>w. True),
      axios_get = (\<lambda>videoId w. Inr liveVideo),
      send_attempt = (\<lambda>chat notification w. if chat = ''B'' then Some ''Forbidden'' else None),
      parseStringPromise = parseExamples\<rparr>"

definition env_no_delivery :: env where
  \<comment> \<open>every destination refuses every message\<close>
  "env_no_delivery = env_healthy\<lparr>send_attempt := (\<lambda>chat notification w. Some ''Forbidden'')\<rparr>"

definition env_store_down :: env where
  \<comment> \<open>the key-value store is unreachable\<close>
  "env_store_down = env_healthy\<lparr>redis_reachable := (\<lambda>w. False)\<rparr>"

definition env_no_tag :: env where
  \<comment> \<open>the video's description does not carry the marker\<close>
  "env_no_tag = env_healthy\<lparr>axios_get := (\<lambda>videoId w. Inr plainVideo)\<rparr>"

definition env_flaky_api :: env where
  \<comment> \<open>the first two requests fail, one with a time-out and one rate-limited; the third succeeds\<close>
  "env_flaky_api = env_healthy\<lparr>axios_get := (\<lambda>videoId w.
       if countEvents isFetch w = 0 then Inl (OtherError ''timeout'')
       else if countEvents isFetch w = 1
         then Inl (AxiosError (Some \<lparr>status = 429, retry_after = Some ''7''\<rparr>))
       else Inr liveVideo)\<rparr>"

definition env_api_down :: env where
  \<comment> \<open>every request fails, and so does every send\<close>
  "env_api_down = env_no_delivery\<lparr>axios_get := (\<lambda>videoId w. Inl (OtherError ''ECONNREFUSED''))\<rparr>"


definition example_notification :: LivestreamNotification where
  "example_notification =
     \<lparr>video = \<lparr>video_id = ''abc123'', title = ''Stream'', description = ''new episode #live today'',
                publishedAt = ''2025-01-01T18:00:00Z'', thumbnailUrl = None,
                channelTitle = ''1453'', channelId = ''UC1453''\<rparr>,
      platforms = config_platforms cfg0, detectedAt = 0\<rparr>"

definition example_fetched :: world where
  "example_fetched = world0\<lparr>trace := [RedisExists ''youtube-livestream:abc123'', AxiosGet ''abc123'',
                                        LogLiveTag ''abc123'' True]\<rparr>"

definition example_request :: "string \<Rightarrow> post_request" where
  "example_request body = \<lparr>hub_signature = None, body_text = Some body\<rparr>"

section \<open>Properties of the Tag Filter\<close>

lemma of_char_eq_iff: "(of_char c :: nat) = of_char d \<longleftrightarrow> c = d"
  by (metis char_of_char)

lemma canon_hash: "canonicalize c = canonicalize (CHR ''#'') \<longleftrightarrow> c = CHR ''#''"
proof -
  have "canonicalize c = 35 \<longleftrightarrow> of_char c = (35::nat)"
    by (auto simp: canonicalize_def Let_def)
  also have "\<dots> \<longleftrightarrow> (of_char c :: nat) = of_char (CHR ''#'')" by simp
  also have "\<dots> \<longleftrightarrow> c = CHR ''#''" by (rule of_char_eq_iff)
  finally show ?thesis by (simp add: canonicalize_def)
qed

lemma canon_letter:
  assumes "97 \<le> (of_char p :: nat)" "(of_char p :: nat) \<le> 122" "(of_char q :: nat) + 32 = of_char p"
  shows "canonicalize c = canonicalize p \<longleftrightarrow> c = p \<or> c = q"
proof -
  have "canonicalize c = canonicalize p \<longleftrightarrow> (of_char c :: nat) = of_char p \<or> (of_char c :: nat) = of_char q"
    unfolding canonicalize_def Let_def using assms by presburger
  then show ?thesis by (simp add: of_char_eq_iff)
qed

lemma canon_l: "canonicalize c = canonicalize (CHR ''l'') \<longleftrightarrow> c = CHR ''l'' \<or> c = CHR ''L''"
  by (rule canon_letter) simp_all
lemma canon_i: "canonicalize c = canonicalize (CHR ''i'') \<longleftrightarrow> c = CHR ''i'' \<or> c = CHR ''I''"
  by (rule canon_letter) simp_all
lemma canon_v: "canonicalize c = canonicalize (CHR ''v'') \<longleftrightarrow> c = CHR ''v'' \<or> c = CHR ''V''"
  by (rule canon_letter) simp_all
lemma canon_e: "canonicalize c = canonicalize (CHR ''e'') \<longleftrightarrow> c = CHR ''e'' \<or> c = CHR ''E''"
  by (rule canon_letter) simp_all

lemma isWordChar_e: "isWordChar (CHR ''e'')" "isWordChar (CHR ''E'')"
  by (simp_all add: isWordChar_def)

lemma matchItems_live:
  "matchItems LIVE_TAG_PATTERN prev s \<longleftrightarrow>
     isMarkerToken (take 5 s) \<and> \<not> isWordAt (nextChar (drop 5 s))"
proof (cases s)
  case Nil then show ?thesis by (simp add: LIVE_TAG_PATTERN_def isMarkerToken_def)
next
  case s1: (Cons c0 s1)
  show ?thesis
  proof (cases s1)
    case Nil then show ?thesis using s1 by (simp add: LIVE_TAG_PATTERN_def isMarkerToken_def)
  next
    case s2: (Cons c1 s2)
    show ?thesis
    proof (cases s2)
      case Nil then show ?thesis using s1 s2 by (simp add: LIVE_TAG_PATTERN_def isMarkerToken_def)
    next
      case s3: (Cons c2 s3)
      show ?thesis
      proof (cases s3)
        case Nil then show ?thesis using s1 s2 s3 by (simp add: LIVE_TAG_PATTERN_def isMarkerToken_def)
      next
        case s4: (Cons c3 s4)
        show ?thesis
        proof (cases s4)
          case Nil then show ?thesis using s1 s2 s3 s4 by (simp add: LIVE_TAG_PATTERN_def isMarkerToken_def)
        next
          case s5: (Cons c4 s5)
          show ?thesis using s1 s2 s3 s4 s5 
            by (auto simp: LIVE_TAG_PATTERN_def isMarkerToken_def canon_hash canon_l canon_i canon_v canon_e isWordChar_e)
        qed
      qed
    qed
  qed
qed

lemma regexTestFrom_live:
  "regexTestFrom LIVE_TAG_PATTERN prev s \<longleftrightarrow>
     list_ex (\<lambda>(pc, nc). \<not> isWordAt nc) (tokenOccurrences prev s)"
proof (induction s arbitrary: prev)
  case Nil
  then show ?case by (simp add: matchItems_live isMarkerToken_def)
next
  case (Cons c cs)
  then show ?case by (simp add: matchItems_live del: drop_Suc_Cons take_Suc_Cons split: if_splits)
qed


lemma isMarkerToken_length: "isMarkerToken t \<Longrightarrow> length t = 5"
  by (auto simp: isMarkerToken_def split: list.splits)

lemma tokenOccurrences_iff:
  "(pc, nc) \<in> set (tokenOccurrences prev s) \<longleftrightarrow>
   (\<exists>pre tok post. s = pre @ tok @ post \<and> isMarkerToken tok
       \<and> pc = (if pre = [] then prev else Some (last pre)) \<and> nc = nextChar post)"
proof (induction s arbitrary: prev)
  case Nil
  then show ?case by (auto simp: isMarkerToken_def)
next
  case (Cons c cs)
  let ?s = "c # cs"
  have here: "(isMarkerToken (take 5 ?s) \<and> pc = prev \<and> nc = nextChar (drop 5 ?s)) \<longleftrightarrow>
      (\<exists>tok post. ?s = tok @ post \<and> isMarkerToken tok \<and> pc = prev \<and> nc = nextChar post)"
  proof
    assume "isMarkerToken (take 5 ?s) \<and> pc = prev \<and> nc = nextChar (drop 5 ?s)"
    then have "?s = take 5 ?s @ drop 5 ?s \<and> isMarkerToken (take 5 ?s) \<and> pc = prev
        \<and> nc = nextChar (drop 5 ?s)"
      by (simp del: take_Suc_Cons drop_Suc_Cons)
    then show "\<exists>tok post. ?s = tok @ post \<and> isMarkerToken tok \<and> pc = prev \<and> nc = nextChar post"
      by blast
  next
    assume "\<exists>tok post. ?s = tok @ post \<and> isMarkerToken tok \<and> pc = prev \<and> nc = nextChar post"
    then obtain tok post where d: "?s = tok @ post" "isMarkerToken tok" "pc = prev" "nc = nextChar post"
      by blast
    from d(2) have "length tok = 5" by (rule isMarkerToken_length)
    with d(1) have "take 5 ?s = tok" "drop 5 ?s = post" by simp_all
    with d show "isMarkerToken (take 5 ?s) \<and> pc = prev \<and> nc = nextChar (drop 5 ?s)" by simp
  qed
  have later: "(pc, nc) \<in> set (tokenOccurrences (Some c) cs) \<longleftrightarrow>
      (\<exists>pre tok post. ?s = (c # pre) @ tok @ post \<and> isMarkerToken tok
          \<and> pc = Some (last (c # pre)) \<and> nc = nextChar post)"
    by (simp add: Cons.IH)
  have split: "(\<exists>pre tok post. ?s = pre @ tok @ post \<and> isMarkerToken tok
       \<and> pc = (if pre = [] then prev else Some (last pre)) \<and> nc = nextChar post) \<longleftrightarrow>
     (\<exists>tok post. ?s = tok @ post \<and> isMarkerToken tok \<and> pc = prev \<and> nc = nextChar post) \<or>
     (\<exists>pre tok post. ?s = (c # pre) @ tok @ post \<and> isMarkerToken tok
          \<and> pc = Some (last (c # pre)) \<and> nc = nextChar post)"
    (is "?L \<longleftrightarrow> ?A \<or> ?B")
  proof
    assume ?L
    then obtain pre tok post where d: "?s = pre @ tok @ post" "isMarkerToken tok"
        "pc = (if pre = [] then prev else Some (last pre))" "nc = nextChar post"
      by blast
    show "?A \<or> ?B"
    proof (cases pre)
      case Nil
      with d have ?A by auto
      then show ?thesis ..
    next
      case (Cons p pre')
      with d have "?s = (c # pre') @ tok @ post \<and> isMarkerToken tok
          \<and> pc = Some (last (c # pre')) \<and> nc = nextChar post"
        by auto
      then have ?B by blast
      then show ?thesis ..
    qed
  next
    assume "?A \<or> ?B"
    then show ?L
    proof
      assume ?A
      then obtain tok post where "?s = [] @ tok @ post \<and> isMarkerToken tok
         \<and> pc = (if ([]::string) = [] then prev else Some (last [])) \<and> nc = nextChar post"
        by auto
      then show ?L by blast
    next
      assume ?B
      then obtain pre tok post where "?s = (c # pre) @ tok @ post \<and> isMarkerToken tok
         \<and> pc = (if c # pre = [] then prev else Some (last (c # pre))) \<and> nc = nextChar post"
        by auto
      then show ?L by blast
    qed
  qed
  have "(pc, nc) \<in> set (tokenOccurrences prev ?s) \<longleftrightarrow>
      (isMarkerToken (take 5 ?s) \<and> pc = prev \<and> nc = nextChar (drop 5 ?s))
      \<or> (pc, nc) \<in> set (tokenOccurrences (Some c) cs)"
    by (auto simp del: take_Suc_Cons drop_Suc_Cons)
  then show ?case unfolding here later split .
qed

lemma separate_word_matches: "spec_separate_word d \<Longrightarrow> containsLiveTag d"
  by (auto simp: spec_separate_word_def containsLiveTag_def regexTest_def regexTestFrom_live list_ex_iff)


text \<open>
  The token \<^verbatim>\<open>#live\<close> occurs in \<^verbatim>\<open>abc#live\<close> only as the tail of a longer word, and the
  filter accepts it: the pattern asserts a boundary after the token and nothing before it.
\<close>

theorem longer_word_counterexample:
  "spec_only_inside_longer_word ''abc#live'' \<and> containsLiveTag ''abc#live''"
  by code_simp

text \<open>
  C4 (as amended). The Tag Filter returns true exactly for the descriptions in which the
  marker token, in any letter case, occurs followed by the end of the text or by a
  character that is not an ASCII letter, a digit or an underscore. So it returns true
  whenever the token stands as a separate word, and false whenever every occurrence is
  directly followed by an ASCII letter, a digit or an underscore; what precedes the token
  is not examined.
\<close>

theorem containsLiveTag_iff:
  "containsLiveTag d \<longleftrightarrow>
     (\<exists>pre tok post. d = pre @ tok @ post \<and> isMarkerToken tok \<and> \<not> isWordAt (nextChar post))"
proof -
  have "containsLiveTag d \<longleftrightarrow> (\<exists>pc nc. (pc, nc) \<in> set (tokenOccurrences None d) \<and> \<not> isWordAt nc)"
    by (auto simp: containsLiveTag_def regexTest_def regexTestFrom_live list_ex_iff)
  also have "\<dots> \<longleftrightarrow> (\<exists>pre tok post. d = pre @ tok @ post \<and> isMarkerToken tok \<and> \<not> isWordAt (nextChar post))"
    unfolding tokenOccurrences_iff by blast
  finally show ?thesis .
qed

theorem containsLiveTag_iff_witness:
  "containsLiveTag ''new episode #LIVE today'' \<and>
   (\<exists>pre tok post. ''new episode #LIVE today'' = pre @ tok @ post \<and> isMarkerToken tok
      \<and> \<not> isWordAt (nextChar post))"
proof -
  have "containsLiveTag ''new episode #LIVE today''" by code_simp
  then show ?thesis using containsLiveTag_iff [of "''new episode #LIVE today''"] by blast
qed

section \<open>Unfolding the retry loops one attempt at a time\<close>

lemma sendToChatWithRetry_from_exhausted:
  "TG_MAX_RETRIES < attempt \<Longrightarrow> sendToChatWithRetry_from env c n stamp attempt le w =
     (\<lparr>success = False, chatId = c, error = Some (errorText le), timestamp = stamp\<rparr>, w)"
  by (subst sendToChatWithRetry_from.simps) simp

lemma sendToChatWithRetry_from_delivered:
  "attempt \<le> TG_MAX_RETRIES \<Longrightarrow> send_attempt env c n w = None \<Longrightarrow>
   sendToChatWithRetry_from env c n stamp attempt le w =
     (\<lparr>success = True, chatId = c, error = None, timestamp = stamp\<rparr>,
      w\<lparr>trace := trace w @ [SendMessage c (video_id (video n)) True]\<rparr>)"
  by (subst sendToChatWithRetry_from.simps) (simp add: sendMessage_def)

lemma sendToChatWithRetry_from_retry:
  "attempt < TG_MAX_RETRIES \<Longrightarrow> send_attempt env c n w = Some m \<Longrightarrow>
   sendToChatWithRetry_from env c n stamp attempt le w =
     sendToChatWithRetry_from env c n stamp (attempt + 1) (Some m)
       (sleep (Num (int (TG_RETRY_DELAY_MS * attempt)))
          (w\<lparr>trace := trace w @ [SendMessage c (video_id (video n)) False]\<rparr>))"
  by (subst sendToChatWithRetry_from.simps) (simp add: sendMessage_def)

lemma sendToChatWithRetry_from_last:
  "attempt = TG_MAX_RETRIES \<Longrightarrow> send_attempt env c n w = Some m \<Longrightarrow>
   sendToChatWithRetry_from env c n stamp attempt le w =
     sendToChatWithRetry_from env c n stamp (attempt + 1) (Some m)
       (w\<lparr>trace := trace w @ [SendMessage c (video_id (video n)) False]\<rparr>)"
  by (subst sendToChatWithRetry_from.simps) (simp add: sendMessage_def)

lemmas sendToChat_eval = sendToChatWithRetry_from_exhausted sendToChatWithRetry_from_delivered
  sendToChatWithRetry_from_retry sendToChatWithRetry_from_last

lemma makeRequestWithRetry_from_exhausted:
  "YT_MAX_RETRIES < attempt \<Longrightarrow> makeRequestWithRetry_from requestFn attempt (Some e) w = (Inl e, w)"
  by (subst makeRequestWithRetry_from.simps) simp

lemma makeRequestWithRetry_from_ok:
  "attempt \<le> YT_MAX_RETRIES \<Longrightarrow> requestFn w = (Inr r, w1) \<Longrightarrow>
   makeRequestWithRetry_from requestFn attempt le w = (Inr r, w1)"
  by (subst makeRequestWithRetry_from.simps) simp

lemma makeRequestWithRetry_from_sleep:
  "attempt \<le> YT_MAX_RETRIES \<Longrightarrow> requestFn w = (Inl e, w1) \<Longrightarrow> retryDelay e attempt = Some d \<Longrightarrow>
   makeRequestWithRetry_from requestFn attempt le w =
     makeRequestWithRetry_from requestFn (attempt + 1) (Some e) (sleep d w1)"
  by (subst makeRequestWithRetry_from.simps) simp

lemma makeRequestWithRetry_from_nosleep:
  "attempt \<le> YT_MAX_RETRIES \<Longrightarrow> requestFn w = (Inl e, w1) \<Longrightarrow> retryDelay e attempt = None \<Longrightarrow>
   makeRequestWithRetry_from requestFn attempt le w =
     makeRequestWithRetry_from requestFn (attempt + 1) (Some e) w1"
  by (subst makeRequestWithRetry_from.simps) simp

lemmas makeRequest_eval = makeRequestWithRetry_from_exhausted makeRequestWithRetry_from_ok
  makeRequestWithRetry_from_sleep makeRequestWithRetry_from_nosleep

lemmas example_defs = cfg0_def world0_def liveVideo_def plainVideo_def feedOf_def parseExamples_def
  env_healthy_def env_no_delivery_def env_store_down_def env_no_tag_def env_flaky_api_def env_api_down_def

lemmas pipeline_defs = handleWebSubCallback_def parseXmlPayload_def entriesOf_def processFeedEntry_def
  processFeedEntry_try_def entryVideoId_def hasBeenNotified_def markAsNotified_def redis_exists_def
  redis_setex_def redis_live_def getVideoMetadata_def makeRequestWithRetry_def videosRequest_def
  metadataOf_def thumbnailOf_def shouldNotifyForVideo_def sendLivestreamNotification_def
  sendToChatWithRetry_def sleep_def timerDelay_def KEY_PREFIX_def TTL_SECONDS_def YT_MAX_RETRIES_def
  TG_MAX_RETRIES_def TG_RETRY_DELAY_MS_def YT_RETRY_DELAY_MS_def errorText_def

lemma live_description: "containsLiveTag ''new episode #live today''" by code_simp
lemma plain_description: "\<not> containsLiveTag ''no tag here''" by code_simp

section \<open>What each operation does to the world\<close>

lemma countEvents_append [simp]:
  "countEvents P (w\<lparr>trace := trace w @ evs\<rparr>) = countEvents P w + length (filter P evs)"
  by (simp add: countEvents_def)

lemma countEvents_sleep [simp]: "countEvents P (sleep d w) = countEvents P w + (if P (Sleep d) then 1 else 0)"
  by (simp add: sleep_def countEvents_def)

lemma sleep_frame [simp]: "redis_keys (sleep d w) = redis_keys w" "now w \<le> now (sleep d w)"
  by (simp_all add: sleep_def)



lemma sendToChatWithRetry_from_effect:
  "sendToChatWithRetry_from env c n stamp attempt le w = (r, w') \<Longrightarrow>
     chatId r = c \<and> timestamp r = stamp \<and> (\<not> success r \<longrightarrow> error r \<noteq> None)
     \<and> redis_keys w' = redis_keys w \<and> now w \<le> now w' \<and> prefix (trace w) (trace w')
     \<and> countEvents (isDelivery c (video_id (video n))) w'
         = countEvents (isDelivery c (video_id (video n))) w + (if success r then 1 else 0)
     \<and> (\<forall>P. (\<forall>ok. \<not> P (SendMessage c (video_id (video n)) ok)) \<and> (\<forall>d. \<not> P (Sleep d))
            \<longrightarrow> countEvents P w' = countEvents P w)"
proof (induction env c n stamp attempt le w arbitrary: r w' rule: sendToChatWithRetry_from.induct)
  case (1 env chat notification stamp attempt lastError w)
  show ?case
  proof (cases "attempt \<le> TG_MAX_RETRIES")
    case False
    with "1.prems" have "r = \<lparr>success = False, chatId = chat, error = Some (errorText lastError),
              timestamp = stamp\<rparr> \<and> w' = w"
      by (subst (asm) sendToChatWithRetry_from.simps) simp
    then show ?thesis
      by simp
  next
    case le: True
    show ?thesis
    proof (cases "send_attempt env chat notification w")
      case None
      let ?w1 = "w\<lparr>trace := trace w @ [SendMessage chat (video_id (video notification)) True]\<rparr>"
      have sm: "sendMessage env chat notification w = (None, ?w1)"
        using None by (simp add: sendMessage_def)
      from le sm "1.prems" have "r = \<lparr>success = True, chatId = chat, error = None, timestamp = stamp\<rparr> \<and> w' = ?w1"
        by (subst (asm) sendToChatWithRetry_from.simps) simp
      then show ?thesis
        by (simp add: isDelivery_def)
    next
      case (Some m)
      let ?w1 = "w\<lparr>trace := trace w @ [SendMessage chat (video_id (video notification)) False]\<rparr>"
      have sm: "sendMessage env chat notification w = (Some m, ?w1)"
        using Some by (simp add: sendMessage_def)
      have p1: "prefix (trace w) (trace ?w1)" by simp
      have w1: "redis_keys ?w1 = redis_keys w" "now ?w1 = now w"
         "\<And>P. countEvents P ?w1 = countEvents P w + (if P (SendMessage chat (video_id (video notification)) False) then 1 else 0)"
        by simp_all
      show ?thesis
      proof (cases "attempt < TG_MAX_RETRIES")
        case True
        let ?w2 = "sleep (Num (int (TG_RETRY_DELAY_MS * attempt))) ?w1"
        from le sm True "1.prems"
        have rec: "sendToChatWithRetry_from env chat notification stamp (attempt + 1) (Some m) ?w2 = (r, w')"
          by (subst (asm) sendToChatWithRetry_from.simps) simp
        have w2: "redis_keys ?w2 = redis_keys w" "now w \<le> now ?w2"
         "\<And>P. countEvents P ?w2 = countEvents P w + (if P (SendMessage chat (video_id (video notification)) False) then 1 else 0)
              + (if P (Sleep (Num (int (TG_RETRY_DELAY_MS * attempt)))) then 1 else 0)"
          by (simp_all add: sleep_def countEvents_def)
        note ih = "1.IH"(1) [OF le sm [symmetric] refl True rec]
        have "prefix (trace w) (trace ?w2)" by (simp add: sleep_def)
        with ih have "prefix (trace w) (trace w')" by (meson prefix_order.trans)
        then show ?thesis using ih w2
          by (simp add: isDelivery_def)
      next
        case False
        from le sm False "1.prems"
        have rec: "sendToChatWithRetry_from env chat notification stamp (attempt + 1) (Some m) ?w1 = (r, w')"
          by (subst (asm) sendToChatWithRetry_from.simps) simp
        note ih = "1.IH"(2) [OF le sm [symmetric] refl False rec]
        from ih p1 have "prefix (trace w) (trace w')" by (meson prefix_order.trans)
        then show ?thesis using ih w1
          by (simp add: isDelivery_def)
      qed
    qed
  qed
qed

lemma prefix_count: "prefix (trace w) (trace w') \<Longrightarrow> countEvents P w \<le> countEvents P w'"
  by (auto simp: prefix_def countEvents_def)

lemma sendToChatWithRetry_effect:
  assumes "sendToChatWithRetry env c n w = (r, w')"
  shows "chatId r = c" and "timestamp r = now w" and "\<not> success r \<longrightarrow> error r \<noteq> None"
    and "redis_keys w' = redis_keys w" and "now w \<le> now w'" and "prefix (trace w) (trace w')"
    and "countEvents (isDelivery c (video_id (video n))) w'
         = countEvents (isDelivery c (video_id (video n))) w + (if success r then 1 else 0)"
    and "\<And>P. (\<forall>ok. \<not> P (SendMessage c (video_id (video n)) ok)) \<Longrightarrow> (\<forall>d. \<not> P (Sleep d))
            \<Longrightarrow> countEvents P w' = countEvents P w"
proof -
  from assms have a: "sendToChatWithRetry_from env c n (now w) 1 None w = (r, w')"
    by (simp add: sendToChatWithRetry_def)
  note e = sendToChatWithRetry_from_effect [OF a]
  from e show "chatId r = c" by blast
  from e show "timestamp r = now w" by blast
  from e show "\<not> success r \<longrightarrow> error r \<noteq> None" by blast
  from e show "redis_keys w' = redis_keys w" by blast
  from e show "now w \<le> now w'" by blast
  from e show "prefix (trace w) (trace w')" by blast
  from e show "countEvents (isDelivery c (video_id (video n))) w'
         = countEvents (isDelivery c (video_id (video n))) w + (if success r then 1 else 0)" by blast
  fix P assume "\<forall>ok. \<not> P (SendMessage c (video_id (video n)) ok)" "\<forall>d. \<not> P (Sleep d)"
  with e show "countEvents P w' = countEvents P w" by blast
qed

lemma sendToChats_effect:
  "sendToChats env cs n acc w = (rs, w') \<Longrightarrow>
     \<exists>new. rs = acc @ new \<and> map chatId new = cs \<and> (\<forall>r\<in>set new. \<not> success r \<longrightarrow> error r \<noteq> None)
       \<and> redis_keys w' = redis_keys w \<and> now w \<le> now w' \<and> prefix (trace w) (trace w')
       \<and> (\<forall>c. countEvents (isDelivery c (video_id (video n))) w'
               = countEvents (isDelivery c (video_id (video n))) w
                 + length (filter (\<lambda>r. chatId r = c \<and> success r) new))
       \<and> (\<forall>P. (\<forall>c ok. \<not> P (SendMessage c (video_id (video n)) ok)) \<and> (\<forall>d. \<not> P (Sleep d))
              \<longrightarrow> countEvents P w' = countEvents P w)"
proof (induction cs arbitrary: acc w)
  case Nil
  then show ?case by simp
next
  case (Cons c cs)
  obtain r w1 where s1: "sendToChatWithRetry env c n w = (r, w1)"
    by (cases "sendToChatWithRetry env c n w")
  with Cons.prems have rest: "sendToChats env cs n (acc @ [r]) w1 = (rs, w')"
    by simp
  note e1 = sendToChatWithRetry_effect [OF s1]
  from Cons.IH [OF rest] obtain new where n1: "rs = (acc @ [r]) @ new" and n2: "map chatId new = cs"
      and n3: "\<forall>r\<in>set new. \<not> success r \<longrightarrow> error r \<noteq> None"
      and n4: "redis_keys w' = redis_keys w1" and n5: "now w1 \<le> now w'" and n6: "prefix (trace w1) (trace w')"
      and n7: "\<forall>c. countEvents (isDelivery c (video_id (video n))) w'
               = countEvents (isDelivery c (video_id (video n))) w1
                 + length (filter (\<lambda>r. chatId r = c \<and> success r) new)"
      and n8: "\<forall>P. (\<forall>c ok. \<not> P (SendMessage c (video_id (video n)) ok)) \<and> (\<forall>d. \<not> P (Sleep d))
              \<longrightarrow> countEvents P w' = countEvents P w1"
    by (elim exE conjE)
  have cnt: "countEvents (isDelivery c' (video_id (video n))) w1
       = countEvents (isDelivery c' (video_id (video n))) w + (if c' = c \<and> success r then 1 else 0)" for c'
  proof (cases "c' = c")
    case True
    then show ?thesis using e1(7) by simp
  next
    case False
    then have "countEvents (isDelivery c' (video_id (video n))) w1
       = countEvents (isDelivery c' (video_id (video n))) w"
      by (intro e1(8)) (simp_all add: isDelivery_def)
    with False show ?thesis by simp
  qed
  have a: "rs = acc @ (r # new)" using n1 by simp
  have b: "map chatId (r # new) = c # cs" using n2 e1(1) by simp
  have c3: "\<forall>x\<in>set (r # new). \<not> success x \<longrightarrow> error x \<noteq> None" using n3 e1(3) by simp
  have d: "redis_keys w' = redis_keys w" using n4 e1(4) by simp
  have e: "now w \<le> now w'" using n5 e1(5) by simp
  have f: "prefix (trace w) (trace w')" using n6 e1(6) by (meson prefix_order.trans)
  have g: "countEvents (isDelivery c' (video_id (video n))) w'
               = countEvents (isDelivery c' (video_id (video n))) w
                 + length (filter (\<lambda>r. chatId r = c' \<and> success r) (r # new))" for c'
    using n7 [rule_format, of c'] cnt [of c'] e1(1) by simp
  have h: "countEvents P w' = countEvents P w"
    if "\<forall>c ok. \<not> P (SendMessage c (video_id (video n)) ok)" "\<forall>d. \<not> P (Sleep d)" for P
  proof -
    from n8 that have "countEvents P w' = countEvents P w1" by blast
    moreover from that have "countEvents P w1 = countEvents P w" by (intro e1(8)) simp_all
    ultimately show ?thesis by simp
  qed
  show ?case
    apply (rule exI [of _ "r # new"])
    using a b c3 d e f g h by blast
qed

lemma videosRequest_eq:
  "videosRequest env v w = (axios_get env v w, w\<lparr>trace := trace w @ [AxiosGet v]\<rparr>)"
  by (simp add: videosRequest_def)

lemma makeRequest_videos_effect:
  "makeRequestWithRetry_from (videosRequest env v) attempt le w = (res, w') \<Longrightarrow>
     redis_keys w' = redis_keys w \<and> now w \<le> now w' \<and> prefix (trace w) (trace w')
     \<and> countEvents isFetch w' \<le> countEvents isFetch w + (YT_MAX_RETRIES + 1 - attempt)
     \<and> (\<forall>P. \<not> P (AxiosGet v) \<and> (\<forall>d. \<not> P (Sleep d)) \<longrightarrow> countEvents P w' = countEvents P w)"
proof (induction "videosRequest env v" attempt le w arbitrary: res w'
        rule: makeRequestWithRetry_from.induct)
  case (1 attempt lastError w)
  let ?w1 = "w\<lparr>trace := trace w @ [AxiosGet v]\<rparr>"
  have w1: "redis_keys ?w1 = redis_keys w" "now ?w1 = now w" "prefix (trace w) (trace ?w1)"
    by simp_all
  have c1: "countEvents P ?w1 = countEvents P w + (if P (AxiosGet v) then 1 else 0)" for P
    by simp
  have f1: "countEvents isFetch ?w1 = countEvents isFetch w + 1"
    by (simp add: isFetch_def)
  show ?case
  proof (cases "attempt \<le> YT_MAX_RETRIES")
    case False
    with "1.prems" have "w' = w"
      by (subst (asm) makeRequestWithRetry_from.simps) (auto split: option.splits)
    then show ?thesis by simp
  next
    case le: True
    show ?thesis
    proof (cases "axios_get env v w")
      case (Inr r)
      then have rq: "videosRequest env v w = (Inr r, ?w1)" by (simp add: videosRequest_eq)
      from le rq "1.prems" have "w' = ?w1"
        by (subst (asm) makeRequestWithRetry_from.simps) simp
      then show ?thesis using le w1 c1 f1 by simp
    next
      case (Inl e)
      then have rq: "videosRequest env v w = (Inl e, ?w1)" by (simp add: videosRequest_eq)
      show ?thesis
      proof (cases "retryDelay e attempt")
        case None
        from le rq None "1.prems"
        have rec: "makeRequestWithRetry_from (videosRequest env v) (attempt + 1) (Some e) ?w1 = (res, w')"
          by (subst (asm) makeRequestWithRetry_from.simps) simp
        note ih = "1.hyps"(1) [OF le rq [symmetric] refl None rec]
        from ih have k: "redis_keys w' = redis_keys w" using w1 by simp
        from ih have t: "now w \<le> now w'" using w1 by simp
        from ih w1(3) have p: "prefix (trace w) (trace w')" by (meson prefix_order.trans)
        from ih have "countEvents isFetch w' \<le> countEvents isFetch ?w1 + (YT_MAX_RETRIES + 1 - (attempt + 1))"
          by blast
        with f1 le have f: "countEvents isFetch w' \<le> countEvents isFetch w + (YT_MAX_RETRIES + 1 - attempt)"
          by arith
        have g: "countEvents P w' = countEvents P w" if "\<not> P (AxiosGet v)" "\<forall>d. \<not> P (Sleep d)" for P
        proof -
          from ih that have "countEvents P w' = countEvents P ?w1" by blast
          with that show ?thesis by (simp only: c1) simp
        qed
        from k t p f g show ?thesis by blast
      next
        case (Some d)
        let ?w2 = "sleep d ?w1"
        from le rq Some "1.prems"
        have rec: "makeRequestWithRetry_from (videosRequest env v) (attempt + 1) (Some e) ?w2 = (res, w')"
          by (subst (asm) makeRequestWithRetry_from.simps) simp
        have w2: "redis_keys ?w2 = redis_keys w" "now w \<le> now ?w2" "prefix (trace w) (trace ?w2)"
          by (simp_all add: sleep_def)
        have c2: "countEvents P ?w2 = countEvents P w + (if P (AxiosGet v) then 1 else 0)
              + (if P (Sleep d) then 1 else 0)" for P
          by (simp add: sleep_def countEvents_def)
        have f2: "countEvents isFetch ?w2 = countEvents isFetch w + 1"
          by (simp add: c2 isFetch_def)
        note ih = "1.hyps"(2) [OF le rq [symmetric] refl Some rec]
        from ih have k: "redis_keys w' = redis_keys w" using w2 by simp
        from ih have t: "now w \<le> now w'" using w2 by (meson order_trans)
        from ih w2(3) have p: "prefix (trace w) (trace w')" by (meson prefix_order.trans)
        from ih have "countEvents isFetch w' \<le> countEvents isFetch ?w2 + (YT_MAX_RETRIES + 1 - (attempt + 1))"
          by blast
        with f2 le have f: "countEvents isFetch w' \<le> countEvents isFetch w + (YT_MAX_RETRIES + 1 - attempt)"
          by arith
        have g: "countEvents P w' = countEvents P w" if "\<not> P (AxiosGet v)" "\<forall>d. \<not> P (Sleep d)" for P
        proof -
          from ih that have "countEvents P w' = countEvents P ?w2" by blast
          with that show ?thesis by (simp only: c2) simp
        qed
        from k t p f g show ?thesis by blast
      qed
    qed
  qed
qed

lemma hasBeenNotified_unreachable:
  "\<not> redis_reachable env w \<Longrightarrow> hasBeenNotified env v w = (False, w\<lparr>trace := trace w @ [RedisExists (KEY_PREFIX @ v)]\<rparr>)"
  by (simp add: hasBeenNotified_def redis_exists_def)

lemma hasBeenNotified_reachable:
  "redis_reachable env w \<Longrightarrow> hasBeenNotified env v w = (redis_live w (KEY_PREFIX @ v), w\<lparr>trace := trace w @ [RedisExists (KEY_PREFIX @ v)]\<rparr>)"
  by (simp add: hasBeenNotified_def redis_exists_def)

lemma hasBeenNotified_world:
  "snd (hasBeenNotified env v w) = w\<lparr>trace := trace w @ [RedisExists (KEY_PREFIX @ v)]\<rparr>"
  by (cases "redis_reachable env w") (simp_all add: hasBeenNotified_unreachable hasBeenNotified_reachable)

lemma markAsNotified_reachable:
  "redis_reachable env w \<Longrightarrow> markAsNotified env v w =
     w\<lparr>trace := trace w @ [RedisSetex (KEY_PREFIX @ v) TTL_SECONDS ''1''],
       redis_keys := (redis_keys w)(KEY_PREFIX @ v \<mapsto> (''1'', now w + TTL_SECONDS * 1000))\<rparr>"
  by (simp add: markAsNotified_def redis_setex_def)

lemma markAsNotified_unreachable:
  "\<not> redis_reachable env w \<Longrightarrow> markAsNotified env v w =
     w\<lparr>trace := trace w @ [RedisSetex (KEY_PREFIX @ v) TTL_SECONDS ''1'']\<rparr>"
  by (simp add: markAsNotified_def redis_setex_def)

lemma markAsNotified_trace:
  "trace (markAsNotified env v w) = trace w @ [RedisSetex (KEY_PREFIX @ v) TTL_SECONDS ''1'']"
  by (cases "redis_reachable env w") (simp_all add: markAsNotified_unreachable markAsNotified_reachable)

lemma markAsNotified_now: "now (markAsNotified env v w) = now w"
  by (cases "redis_reachable env w") (simp_all add: markAsNotified_unreachable markAsNotified_reachable)

lemma markAsNotified_count:
  "countEvents P (markAsNotified env v w)
     = countEvents P w + (if P (RedisSetex (KEY_PREFIX @ v) TTL_SECONDS ''1'') then 1 else 0)"
  by (simp add: countEvents_def markAsNotified_trace)

lemma getVideoMetadata_effect:
  assumes "getVideoMetadata env v w = (res, w')"
  shows "redis_keys w' = redis_keys w" and "now w \<le> now w'" and "prefix (trace w) (trace w')"
    and "countEvents isFetch w' \<le> countEvents isFetch w + YT_MAX_RETRIES"
    and "\<And>P. \<not> P (AxiosGet v) \<Longrightarrow> (\<forall>d. \<not> P (Sleep d)) \<Longrightarrow> countEvents P w' = countEvents P w"
    and "\<And>md. res = Some md \<Longrightarrow> video_id md = v"
proof -
  obtain r where a: "makeRequestWithRetry_from (videosRequest env v) 1 None w = (r, w')"
    using assms by (auto simp: getVideoMetadata_def makeRequestWithRetry_def split: prod.splits sum.splits)
  note e = makeRequest_videos_effect [OF a]
  from e show "redis_keys w' = redis_keys w" by blast
  from e show "now w \<le> now w'" by blast
  from e show "prefix (trace w) (trace w')" by blast
  from e show "countEvents isFetch w' \<le> countEvents isFetch w + YT_MAX_RETRIES" by simp
  show "countEvents P w' = countEvents P w" if "\<not> P (AxiosGet v)" "\<forall>d. \<not> P (Sleep d)" for P
    using e that by blast
  show "video_id md = v" if "res = Some md" for md
    using assms that
    by (auto simp: getVideoMetadata_def metadataOf_def split: prod.splits sum.splits option.splits list.splits)
qed

lemma sendLivestreamNotification_effect:
  assumes "sendLivestreamNotification cfg env n w = (rs, w')"
  shows "map chatId rs = telegram_chatIds cfg" and "\<forall>r\<in>set rs. \<not> success r \<longrightarrow> error r \<noteq> None"
    and "redis_keys w' = redis_keys w" and "now w \<le> now w'" and "prefix (trace w) (trace w')"
    and "\<And>c. countEvents (isDelivery c (video_id (video n))) w'
               = countEvents (isDelivery c (video_id (video n))) w
                 + length (filter (\<lambda>r. chatId r = c \<and> success r) rs)"
    and "\<And>P. (\<forall>c ok. \<not> P (SendMessage c (video_id (video n)) ok)) \<Longrightarrow> (\<forall>d. \<not> P (Sleep d))
              \<Longrightarrow> countEvents P w' = countEvents P w"
proof -
  from assms have a: "sendToChats env (telegram_chatIds cfg) n [] w = (rs, w')"
    by (simp add: sendLivestreamNotification_def)
  from sendToChats_effect [OF a] obtain new where n0: "rs = [] @ new" and n2: "map chatId new = telegram_chatIds cfg"
      and n3: "\<forall>r\<in>set new. \<not> success r \<longrightarrow> error r \<noteq> None"
      and n4: "redis_keys w' = redis_keys w" and n5: "now w \<le> now w'" and n6: "prefix (trace w) (trace w')"
      and n7: "\<forall>c. countEvents (isDelivery c (video_id (video n))) w'
               = countEvents (isDelivery c (video_id (video n))) w
                 + length (filter (\<lambda>r. chatId r = c \<and> success r) new)"
      and n8: "\<forall>P. (\<forall>c ok. \<not> P (SendMessage c (video_id (video n)) ok)) \<and> (\<forall>d. \<not> P (Sleep d))
              \<longrightarrow> countEvents P w' = countEvents P w"
    by (elim exE conjE)
  from n0 have rs: "rs = new" by simp
  show "map chatId rs = telegram_chatIds cfg" using n2 rs by simp
  show "\<forall>r\<in>set rs. \<not> success r \<longrightarrow> error r \<noteq> None" using n3 rs by simp
  show "redis_keys w' = redis_keys w" by (rule n4)
  show "now w \<le> now w'" by (rule n5)
  show "prefix (trace w) (trace w')" by (rule n6)
  show "countEvents (isDelivery c (video_id (video n))) w'
               = countEvents (isDelivery c (video_id (video n))) w
                 + length (filter (\<lambda>r. chatId r = c \<and> success r) rs)" for c
    using n7 rs by simp
  show "countEvents P w' = countEvents P w"
    if "\<forall>c ok. \<not> P (SendMessage c (video_id (video n)) ok)" "\<forall>d. \<not> P (Sleep d)" for P
    using n8 that by blast
qed

lemma successes_le_count:
  "length (filter (\<lambda>r. chatId r = c \<and> success r) rs) \<le> count_list (map chatId rs) c"
  by (induction rs) auto

text \<open>The five ways through processFeedEntry.\<close>

lemma processFeedEntry_skip:
  "entryVideoId e = Inl u \<or> entryVideoId e = Inr None \<or> entryVideoId e = Inr (Some [])
     \<Longrightarrow> processFeedEntry cfg env e w = w"
  by (auto simp: processFeedEntry_def processFeedEntry_try_def)

lemma processFeedEntry_duplicate:
  "entryVideoId e = Inr (Some v) \<Longrightarrow> v \<noteq> [] \<Longrightarrow> hasBeenNotified env v w = (True, w1)
     \<Longrightarrow> processFeedEntry cfg env e w = w1"
  by (simp add: processFeedEntry_def processFeedEntry_try_def)

lemma processFeedEntry_no_metadata:
  "entryVideoId e = Inr (Some v) \<Longrightarrow> v \<noteq> [] \<Longrightarrow> hasBeenNotified env v w = (False, w1)
     \<Longrightarrow> getVideoMetadata env v w1 = (None, w2)
     \<Longrightarrow> processFeedEntry cfg env e w = w2"
  by (simp add: processFeedEntry_def processFeedEntry_try_def)

lemma processFeedEntry_no_tag:
  "entryVideoId e = Inr (Some v) \<Longrightarrow> v \<noteq> [] \<Longrightarrow> hasBeenNotified env v w = (False, w1)
     \<Longrightarrow> getVideoMetadata env v w1 = (Some md, w2) \<Longrightarrow> shouldNotifyForVideo md w2 = (False, w3)
     \<Longrightarrow> processFeedEntry cfg env e w = w3"
  by (simp add: processFeedEntry_def processFeedEntry_try_def)

lemma processFeedEntry_notify:
  "entryVideoId e = Inr (Some v) \<Longrightarrow> v \<noteq> [] \<Longrightarrow> hasBeenNotified env v w = (False, w1)
     \<Longrightarrow> getVideoMetadata env v w1 = (Some md, w2) \<Longrightarrow> shouldNotifyForVideo md w2 = (True, w3)
     \<Longrightarrow> sendLivestreamNotification cfg env
           \<lparr>video = md, platforms = config_platforms cfg, detectedAt = now w3\<rparr> w3 = (rs, w4)
     \<Longrightarrow> processFeedEntry cfg env e w = markAsNotified env v w4"
  by (simp add: processFeedEntry_def processFeedEntry_try_def)

lemma entryVideoId_cases:
  obtains u where "entryVideoId e = Inl u"
  | "entryVideoId e = Inr None"
  | v where "entryVideoId e = Inr (Some v)"
  by (cases "entryVideoId e") auto

lemma isMark_setex [simp]: "isMark v (RedisSetex (KEY_PREFIX @ v') s x) = (v' = v)"
  by (simp add: isMark_def)

lemma isMark_others [simp]: "\<not> isMark v (LogLiveTag x found)" "\<not> isMark v (RedisExists k)" "\<not> isMark v (AxiosGet x)" "\<not> isMark v (Sleep d)"
  "\<not> isMark v (SendMessage c x ok)" "\<not> isMark v (RedisDel k)"
  by (simp_all add: isMark_def)

lemma isDelivery_simps [simp]: "\<not> isDelivery c v (LogLiveTag x found)" "\<not> isDelivery c v (RedisExists k)" "\<not> isDelivery c v (AxiosGet x)"
  "\<not> isDelivery c v (Sleep d)" "\<not> isDelivery c v (RedisSetex k s x)" "\<not> isDelivery c v (RedisDel k)"
  "isDelivery c v (SendMessage c' v' ok) = (c' = c \<and> v' = v \<and> ok)"
  by (auto simp: isDelivery_def)

lemma isDupCheck_simps [simp]: "\<not> isDupCheck (LogLiveTag x found)" "isDupCheck (RedisExists k)" "\<not> isDupCheck (AxiosGet x)"
  "\<not> isDupCheck (Sleep d)" "\<not> isDupCheck (RedisSetex k s x)" "\<not> isDupCheck (RedisDel k)"
  "\<not> isDupCheck (SendMessage c' v' ok)"
  by (auto simp: isDupCheck_def)

lemma isFetch_simps [simp]: "\<not> isFetch (LogLiveTag x found)" "\<not> isFetch (RedisExists k)" "isFetch (AxiosGet x)"
  "\<not> isFetch (Sleep d)" "\<not> isFetch (RedisSetex k s x)" "\<not> isFetch (RedisDel k)"
  "\<not> isFetch (SendMessage c' v' ok)"
  by (auto simp: isFetch_def)

lemma processFeedEntry_target:
  fixes cfg :: AppConfig and env :: env and e :: feed_entry and w :: world
  assumes reach: "\<forall>w. redis_reachable env w"
  defines "w' \<equiv> processFeedEntry cfg env e w"
  shows "(countEvents (isDelivery c v) w' = countEvents (isDelivery c v) w
            \<and> countEvents (isMark v) w' = countEvents (isMark v) w
            \<and> redis_keys w' (KEY_PREFIX @ v) = redis_keys w (KEY_PREFIX @ v))
         \<or> (\<not> redis_live w (KEY_PREFIX @ v)
            \<and> countEvents (isDelivery c v) w' \<le> countEvents (isDelivery c v) w + count_list (telegram_chatIds cfg) c
            \<and> countEvents (isMark v) w' = countEvents (isMark v) w + 1
            \<and> (\<exists>ex. redis_keys w' (KEY_PREFIX @ v) = Some (''1'', ex) \<and> now w + TTL_SECONDS * 1000 \<le> ex))"
    (is "?same w' \<or> ?fanned w'")
proof (cases e rule: entryVideoId_cases)
  case (1 u)
  then have "w' = w" unfolding w'_def by (intro processFeedEntry_skip) simp
  then show ?thesis by simp
next
  case 2
  then have "w' = w" unfolding w'_def by (intro processFeedEntry_skip) simp
  then show ?thesis by simp
next
  case (3 x)
  show ?thesis
  proof (cases "x = []")
    case True
    with 3 have "w' = w" unfolding w'_def by (intro processFeedEntry_skip) simp
    then show ?thesis by simp
  next
    case ne: False
    let ?w1 = "w\<lparr>trace := trace w @ [RedisExists (KEY_PREFIX @ x)]\<rparr>"
    have hb: "hasBeenNotified env x w = (redis_live w (KEY_PREFIX @ x), ?w1)"
      using reach by (simp add: hasBeenNotified_reachable)
    have s1: "countEvents (isDelivery c v) ?w1 = countEvents (isDelivery c v) w"
        "countEvents (isMark v) ?w1 = countEvents (isMark v) w"
        "redis_keys ?w1 = redis_keys w" "now ?w1 = now w"
      by simp_all
    show ?thesis
    proof (cases "redis_live w (KEY_PREFIX @ x)")
      case True
      with 3 ne hb have "w' = ?w1" unfolding w'_def by (intro processFeedEntry_duplicate) simp_all
      with s1 show ?thesis by simp
    next
      case notlive: False
      obtain res w2 where gvm: "getVideoMetadata env x ?w1 = (res, w2)"
        by (cases "getVideoMetadata env x ?w1")
      note g = getVideoMetadata_effect [OF gvm]
      have s2: "countEvents (isDelivery c v) w2 = countEvents (isDelivery c v) w"
        "countEvents (isMark v) w2 = countEvents (isMark v) w"
        "redis_keys w2 = redis_keys w" "now w \<le> now w2"
        using g(1) g(2) g(5) [of "isDelivery c v"] g(5) [of "isMark v"] s1 by simp_all
      show ?thesis
      proof (cases res)
        case None
        with 3 ne hb notlive gvm have "w' = w2" unfolding w'_def
          by (intro processFeedEntry_no_metadata) simp_all
        with s2 show ?thesis by simp
      next
        case (Some md)
        with g(6) have vid: "video_id md = x" by simp
        let ?wt = "w2\<lparr>trace := trace w2 @ [LogLiveTag (video_id md) (containsLiveTag (description md))]\<rparr>"
        have sn: "shouldNotifyForVideo md w2 = (containsLiveTag (description md), ?wt)"
          by (simp add: shouldNotifyForVideo_def Let_def)
        have st: "countEvents (isDelivery c v) ?wt = countEvents (isDelivery c v) w"
          "countEvents (isMark v) ?wt = countEvents (isMark v) w"
          "redis_keys ?wt = redis_keys w" "now w \<le> now ?wt"
          using s2 by simp_all
        show ?thesis
        proof (cases "containsLiveTag (description md)")
          case False
          with Some 3 ne hb notlive gvm sn have "w' = ?wt" unfolding w'_def
            by (intro processFeedEntry_no_tag [where md = md and ?w2.0 = w2 and ?w3.0 = "?wt"]) simp_all
          with st show ?thesis by simp
        next
          case True
          note s2 = st
          let ?n = "\<lparr>video = md, platforms = config_platforms cfg, detectedAt = now ?wt\<rparr>"
          obtain rs w3 where sl: "sendLivestreamNotification cfg env ?n ?wt = (rs, w3)"
            by (cases "sendLivestreamNotification cfg env ?n ?wt")
          note f = sendLivestreamNotification_effect [OF sl]
          from True Some 3 ne hb notlive gvm sn sl have w': "w' = markAsNotified env x w3" unfolding w'_def
            by (intro processFeedEntry_notify [where md = md and rs = rs and ?w2.0 = w2 and ?w3.0 = "?wt"]) simp_all
          have m3: "countEvents (isMark v) w3 = countEvents (isMark v) w"
            using f(7) [of "isMark v"] s2 by simp
          have k3: "redis_keys w3 = redis_keys w" "now w \<le> now w3"
            using f(3) f(4) s2 by simp_all
          have mk: "markAsNotified env x w3 =
             w3\<lparr>trace := trace w3 @ [RedisSetex (KEY_PREFIX @ x) TTL_SECONDS ''1''],
               redis_keys := (redis_keys w3)(KEY_PREFIX @ x \<mapsto> (''1'', now w3 + TTL_SECONDS * 1000))\<rparr>"
            using reach by (simp add: markAsNotified_reachable)
          have w'M: "countEvents (isMark v) w' = countEvents (isMark v) w + (if x = v then 1 else 0)"
            using m3 by (simp add: w' mk countEvents_def)
          have w'D: "countEvents (isDelivery c v) w' = countEvents (isDelivery c v) w3"
            by (simp add: w' mk countEvents_def)
          have w'K: "redis_keys w' = (redis_keys w)(KEY_PREFIX @ x \<mapsto> (''1'', now w3 + TTL_SECONDS * 1000))"
            using k3 by (simp add: w' mk)
          show ?thesis
          proof (cases "x = v")
            case True
            have d3: "countEvents (isDelivery c v) w3 \<le> countEvents (isDelivery c v) w + count_list (telegram_chatIds cfg) c"
              using f(6) [of c] f(1) successes_le_count [of c rs] s2 vid True by simp
            have "?fanned w'"
              using notlive True d3 k3 by (simp add: w'M w'D w'K)
            then show ?thesis ..
          next
            case False
            have d3: "countEvents (isDelivery c v) w3 = countEvents (isDelivery c v) w"
              using f(7) [of "isDelivery c v"] s2 vid False by simp
            have "?same w'"
              using False d3 by (simp add: w'M w'D w'K)
            then show ?thesis ..
          qed
        qed
      qed
    qed
  qed
qed

lemma processFeedEntry_generic:
  fixes cfg :: AppConfig and env :: env and e :: feed_entry and w :: world
  defines "w' \<equiv> processFeedEntry cfg env e w"
  shows "now w \<le> now w'" and "prefix (trace w) (trace w')"
    and "countEvents isDupCheck w' \<le> countEvents isDupCheck w + 1"
proof -
  have "now w \<le> now w' \<and> prefix (trace w) (trace w')
      \<and> countEvents isDupCheck w' \<le> countEvents isDupCheck w + 1"
  proof (cases e rule: entryVideoId_cases)
    case (1 u)
    then have "w' = w" unfolding w'_def by (intro processFeedEntry_skip) simp
    then show ?thesis by simp
  next
    case 2
    then have "w' = w" unfolding w'_def by (intro processFeedEntry_skip) simp
    then show ?thesis by simp
  next
    case (3 x)
    show ?thesis
    proof (cases "x = []")
      case True
      with 3 have "w' = w" unfolding w'_def by (intro processFeedEntry_skip) simp
      then show ?thesis by simp
    next
      case ne: False
      let ?w1 = "w\<lparr>trace := trace w @ [RedisExists (KEY_PREFIX @ x)]\<rparr>"
      obtain b where hb: "hasBeenNotified env x w = (b, ?w1)"
        using hasBeenNotified_world [of env x w] by (cases "hasBeenNotified env x w") simp
      have s1: "countEvents isDupCheck ?w1 = countEvents isDupCheck w + 1"
          "now ?w1 = now w" "prefix (trace w) (trace ?w1)"
        by simp_all
      show ?thesis
      proof (cases b)
        case True
        with 3 ne hb have "w' = ?w1" unfolding w'_def by (intro processFeedEntry_duplicate) simp_all
        with s1 show ?thesis by simp
      next
        case notlive: False
        obtain res w2 where gvm: "getVideoMetadata env x ?w1 = (res, w2)"
          by (cases "getVideoMetadata env x ?w1")
        note g = getVideoMetadata_effect [OF gvm]
        have s2: "countEvents isDupCheck w2 = countEvents isDupCheck w + 1"
          "now w \<le> now w2"
          using g(2) g(5) [of isDupCheck] s1 by simp_all
        have p2: "prefix (trace w) (trace w2)"
          using g(3) s1(3) by (meson prefix_order.trans)
        show ?thesis
        proof (cases res)
          case None
          with 3 ne hb notlive gvm have "w' = w2" unfolding w'_def
            by (intro processFeedEntry_no_metadata) simp_all
          with s2 p2 show ?thesis by simp
        next
          case (Some md)
          let ?wt = "w2\<lparr>trace := trace w2 @ [LogLiveTag (video_id md) (containsLiveTag (description md))]\<rparr>"
          have sn: "shouldNotifyForVideo md w2 = (containsLiveTag (description md), ?wt)"
            by (simp add: shouldNotifyForVideo_def Let_def)
          have st: "countEvents isDupCheck ?wt = countEvents isDupCheck w + 1"
            "now w \<le> now ?wt"
            using s2 by simp_all
          have pt: "prefix (trace w) (trace ?wt)"
            using p2 by (simp add: prefix_prefix)
          show ?thesis
          proof (cases "containsLiveTag (description md)")
            case False
            with Some 3 ne hb notlive gvm sn have "w' = ?wt" unfolding w'_def
              by (intro processFeedEntry_no_tag [where md = md and ?w2.0 = w2 and ?w3.0 = "?wt"]) simp_all
            with st pt show ?thesis by simp
          next
            case True
            note s2 = st and p2 = pt
            let ?n = "\<lparr>video = md, platforms = config_platforms cfg, detectedAt = now ?wt\<rparr>"
            obtain rs w3 where sl: "sendLivestreamNotification cfg env ?n ?wt = (rs, w3)"
              by (cases "sendLivestreamNotification cfg env ?n ?wt")
            note f = sendLivestreamNotification_effect [OF sl]
            from True Some 3 ne hb notlive gvm sn sl have w': "w' = markAsNotified env x w3" unfolding w'_def
              by (intro processFeedEntry_notify [where md = md and rs = rs and ?w2.0 = w2 and ?w3.0 = "?wt"]) simp_all
            have a: "now w \<le> now w'" using f(4) s2 by (simp add: w' markAsNotified_now)
            have "prefix (trace w3) (trace w')" by (simp add: w' markAsNotified_trace)
            with f(5) p2 have b: "prefix (trace w) (trace w')" by (meson prefix_order.trans)
            have c: "countEvents isDupCheck w' \<le> countEvents isDupCheck w + 1"
              using f(7) [of isDupCheck] s2 by (simp add: w' markAsNotified_count)
            from a b c show ?thesis by simp
          qed
        qed
      qed
    qed
  qed
  then show "now w \<le> now w'" and "prefix (trace w) (trace w')"
    and "countEvents isDupCheck w' \<le> countEvents isDupCheck w + 1"
    by simp_all
qed

lemma processEntries_generic:
  "now w \<le> now (processEntries cfg env es w)"
  "countEvents isDupCheck (processEntries cfg env es w) \<le> countEvents isDupCheck w + length es"
proof (induction es arbitrary: w)
  case Nil
  { case 1 show ?case by simp }
  { case 2 show ?case by simp }
next
  case (Cons e es)
  { case 1
    show ?case using Cons.IH(1) [of "processFeedEntry cfg env e w"]
        processFeedEntry_generic(1) [of w cfg env e] by simp }
  { case 2
    show ?case using Cons.IH(2) [of "processFeedEntry cfg env e w"]
        processFeedEntry_generic(3) [of cfg env e w] by simp }
qed

lemma processEntries_target:
  assumes reach: "\<forall>x. redis_reachable env x"
    and start: "now w0 \<le> now w"
    and inv: "(countEvents (isDelivery c v) w = countEvents (isDelivery c v) w0
               \<and> countEvents (isMark v) w = countEvents (isMark v) w0)
            \<or> (countEvents (isDelivery c v) w \<le> countEvents (isDelivery c v) w0 + count_list (telegram_chatIds cfg) c
               \<and> countEvents (isMark v) w = countEvents (isMark v) w0 + 1
               \<and> (\<exists>ex. redis_keys w (KEY_PREFIX @ v) = Some (''1'', ex) \<and> now w0 + TTL_SECONDS * 1000 \<le> ex))"
    and final: "now (processEntries cfg env es w) \<le> now w0 + TTL_SECONDS * 1000"
  shows "countEvents (isDelivery c v) (processEntries cfg env es w)
           \<le> countEvents (isDelivery c v) w0 + count_list (telegram_chatIds cfg) c
         \<and> countEvents (isMark v) (processEntries cfg env es w) \<le> countEvents (isMark v) w0 + 1"
  using start inv final
proof (induction es arbitrary: w)
  case Nil
  then show ?case by auto
next
  case (Cons e es)
  let ?w1 = "processFeedEntry cfg env e w"
  have fin: "now (processEntries cfg env es ?w1) \<le> now w0 + TTL_SECONDS * 1000"
    using Cons.prems(3) by simp
  have t1: "now w \<le> now ?w1" by (rule processFeedEntry_generic(1))
  have t2: "now ?w1 \<le> now (processEntries cfg env es ?w1)" by (rule processEntries_generic(1))
  have bound: "now w \<le> now w0 + TTL_SECONDS * 1000" using t1 t2 fin by simp
  have st: "now w0 \<le> now ?w1" using Cons.prems(1) t1 by simp
  note step = processFeedEntry_target [OF reach, of c v cfg e w]
  have inv1: "(countEvents (isDelivery c v) ?w1 = countEvents (isDelivery c v) w0
               \<and> countEvents (isMark v) ?w1 = countEvents (isMark v) w0)
            \<or> (countEvents (isDelivery c v) ?w1 \<le> countEvents (isDelivery c v) w0 + count_list (telegram_chatIds cfg) c
               \<and> countEvents (isMark v) ?w1 = countEvents (isMark v) w0 + 1
               \<and> (\<exists>ex. redis_keys ?w1 (KEY_PREFIX @ v) = Some (''1'', ex) \<and> now w0 + TTL_SECONDS * 1000 \<le> ex))"
  proof -
    from Cons.prems(2) show ?thesis
    proof
      assume a: "countEvents (isDelivery c v) w = countEvents (isDelivery c v) w0
               \<and> countEvents (isMark v) w = countEvents (isMark v) w0"
      from step show ?thesis
      proof
        assume "countEvents (isDelivery c v) ?w1 = countEvents (isDelivery c v) w
            \<and> countEvents (isMark v) ?w1 = countEvents (isMark v) w
            \<and> redis_keys ?w1 (KEY_PREFIX @ v) = redis_keys w (KEY_PREFIX @ v)"
        with a show ?thesis by simp
      next
        assume b: "\<not> redis_live w (KEY_PREFIX @ v)
            \<and> countEvents (isDelivery c v) ?w1 \<le> countEvents (isDelivery c v) w + count_list (telegram_chatIds cfg) c
            \<and> countEvents (isMark v) ?w1 = countEvents (isMark v) w + 1
            \<and> (\<exists>ex. redis_keys ?w1 (KEY_PREFIX @ v) = Some (''1'', ex) \<and> now w + TTL_SECONDS * 1000 \<le> ex)"
        then obtain ex where ex: "redis_keys ?w1 (KEY_PREFIX @ v) = Some (''1'', ex)"
            "now w + TTL_SECONDS * 1000 \<le> ex" by blast
        with Cons.prems(1) have "now w0 + TTL_SECONDS * 1000 \<le> ex" by simp
        with ex(1) a b show ?thesis by auto
      qed
    next
      assume a: "countEvents (isDelivery c v) w \<le> countEvents (isDelivery c v) w0 + count_list (telegram_chatIds cfg) c
               \<and> countEvents (isMark v) w = countEvents (isMark v) w0 + 1
               \<and> (\<exists>ex. redis_keys w (KEY_PREFIX @ v) = Some (''1'', ex) \<and> now w0 + TTL_SECONDS * 1000 \<le> ex)"
      then obtain ex where ex: "redis_keys w (KEY_PREFIX @ v) = Some (''1'', ex)"
          "now w0 + TTL_SECONDS * 1000 \<le> ex" by blast
      with bound have live: "redis_live w (KEY_PREFIX @ v)" by (simp add: redis_live_def)
      with step have "countEvents (isDelivery c v) ?w1 = countEvents (isDelivery c v) w
            \<and> countEvents (isMark v) ?w1 = countEvents (isMark v) w
            \<and> redis_keys ?w1 (KEY_PREFIX @ v) = redis_keys w (KEY_PREFIX @ v)"
        by blast
      with a ex show ?thesis by auto
    qed
  qed
  from Cons.IH [OF st inv1 fin] show ?case by simp
qed

subsection \<open>Rounds, marks and deliveries of one payload\<close>

lemma isAnyMark_simps [simp]: "\<not> isAnyMark (LogLiveTag x found)" "\<not> isAnyMark (RedisExists k)" "\<not> isAnyMark (AxiosGet x)"
  "\<not> isAnyMark (Sleep d)" "isAnyMark (RedisSetex k s x)" "\<not> isAnyMark (RedisDel k)"
  "\<not> isAnyMark (SendMessage c' v' ok)"
  by (auto simp: isAnyMark_def)

lemma isDeliveryTo_simps [simp]: "\<not> isDeliveryTo c (LogLiveTag x found)" "\<not> isDeliveryTo c (RedisExists k)" "\<not> isDeliveryTo c (AxiosGet x)"
  "\<not> isDeliveryTo c (Sleep d)" "\<not> isDeliveryTo c (RedisSetex k s x)" "\<not> isDeliveryTo c (RedisDel k)"
  "isDeliveryTo c (SendMessage c' v' ok) = (c' = c \<and> ok)"
  by (auto simp: isDeliveryTo_def)

lemma isTagCheck_simps [simp]: "isTagCheck (LogLiveTag x found)" "\<not> isTagCheck (RedisExists k)"
  "\<not> isTagCheck (AxiosGet x)" "\<not> isTagCheck (Sleep d)" "\<not> isTagCheck (RedisSetex k s x)"
  "\<not> isTagCheck (RedisDel k)" "\<not> isTagCheck (SendMessage c' v' ok)"
  by (auto simp: isTagCheck_def)

lemma isSleep_simps [simp]: "\<not> isSleep (LogLiveTag x found)" "\<not> isSleep (RedisExists k)" "\<not> isSleep (AxiosGet x)"
  "isSleep (Sleep d)" "\<not> isSleep (RedisSetex k s x)" "\<not> isSleep (RedisDel k)"
  "\<not> isSleep (SendMessage c' v' ok)"
  by (auto simp: isSleep_def)

lemma roundStarts_append:
  "roundStarts b (xs @ ys) = roundStarts b xs + roundStarts (endsInSleep b xs) ys"
  by (induction xs arbitrary: b) (auto simp: endsInSleep_def)

lemma roundStarts_none: "\<forall>e\<in>set es. \<not> isFetch e \<Longrightarrow> roundStarts b es = 0"
  by (induction es arbitrary: b) auto

lemma roundStarts_le: "roundStarts True es \<le> roundStarts b es"
proof (cases es)
  case Nil then show ?thesis by simp
next
  case (Cons e es') then show ?thesis by simp
qed

lemma fetchRounds_unchanged:
  assumes "prefix (trace w) (trace w')" and "countEvents isFetch w' = countEvents isFetch w"
  shows "fetchRounds w' = fetchRounds w"
proof -
  from assms(1) obtain zs where zs: "trace w' = trace w @ zs" by (auto simp: prefix_def)
  with assms(2) have "filter isFetch zs = []" by (simp add: countEvents_def)
  then have "\<forall>e\<in>set zs. \<not> isFetch e" by (simp add: filter_empty_conv)
  then have "roundStarts b zs = 0" for b by (rule roundStarts_none)
  with zs show ?thesis by (simp add: fetchRounds_def roundStarts_append)
qed

lemma fetchRounds_request:
  "fetchRounds (w\<lparr>trace := trace w @ [AxiosGet v]\<rparr>)
     = fetchRounds w + (if endsInSleep False (trace w) then 0 else 1)"
  by (simp add: fetchRounds_def roundStarts_append)

lemma fetchRounds_sleep: "fetchRounds (sleep d w) = fetchRounds w"
  by (simp add: fetchRounds_def roundStarts_append sleep_def)

lemma endsInSleep_sleep: "endsInSleep b (trace (sleep d w))"
  by (simp add: endsInSleep_def sleep_def)

lemma retryDelay_None: "retryDelay e attempt = None \<Longrightarrow> YT_MAX_RETRIES \<le> attempt"
  by (auto simp: retryDelay_def split: if_splits)

lemma makeRequest_videos_rounds:
  "makeRequestWithRetry_from (videosRequest env v) attempt le w = (res, w') \<Longrightarrow>
     fetchRounds w' \<le> fetchRounds w + (if endsInSleep False (trace w) then 0 else 1)"
proof (induction "videosRequest env v" attempt le w arbitrary: res w'
        rule: makeRequestWithRetry_from.induct)
  case (1 attempt lastError w)
  let ?w1 = "w\<lparr>trace := trace w @ [AxiosGet v]\<rparr>"
  note f1 = fetchRounds_request [of w v]
  show ?case
  proof (cases "attempt \<le> YT_MAX_RETRIES")
    case False
    with "1.prems" have "w' = w"
      by (subst (asm) makeRequestWithRetry_from.simps) (auto split: option.splits)
    then show ?thesis by simp
  next
    case le: True
    show ?thesis
    proof (cases "axios_get env v w")
      case (Inr r)
      then have rq: "videosRequest env v w = (Inr r, ?w1)" by (simp add: videosRequest_eq)
      from le rq "1.prems" have "w' = ?w1"
        by (subst (asm) makeRequestWithRetry_from.simps) simp
      then show ?thesis using f1 by simp
    next
      case (Inl e)
      then have rq: "videosRequest env v w = (Inl e, ?w1)" by (simp add: videosRequest_eq)
      show ?thesis
      proof (cases "retryDelay e attempt")
        case None
        from le rq None "1.prems"
        have rec: "makeRequestWithRetry_from (videosRequest env v) (attempt + 1) (Some e) ?w1 = (res, w')"
          by (subst (asm) makeRequestWithRetry_from.simps) simp
        from retryDelay_None [OF None] have "YT_MAX_RETRIES < attempt + 1" by simp
        from makeRequestWithRetry_from_exhausted [OF this, of "videosRequest env v" e ?w1] rec
        have "w' = ?w1" by simp
        then show ?thesis using f1 by simp
      next
        case (Some d)
        let ?w2 = "sleep d ?w1"
        from le rq Some "1.prems"
        have rec: "makeRequestWithRetry_from (videosRequest env v) (attempt + 1) (Some e) ?w2 = (res, w')"
          by (subst (asm) makeRequestWithRetry_from.simps) simp
        note ih = "1.hyps"(2) [OF le rq [symmetric] refl Some rec]
        have "endsInSleep False (trace ?w2)" by (rule endsInSleep_sleep)
        with ih have "fetchRounds w' \<le> fetchRounds ?w2" by simp
        also have "\<dots> = fetchRounds ?w1" by (rule fetchRounds_sleep)
        finally show ?thesis using f1 by simp
      qed
    qed
  qed
qed

lemma getVideoMetadata_rounds:
  assumes "getVideoMetadata env v w = (res, w')"
  shows "fetchRounds w' \<le> fetchRounds w + 1"
proof -
  obtain r where a: "makeRequestWithRetry_from (videosRequest env v) 1 None w = (r, w')"
    using assms by (auto simp: getVideoMetadata_def makeRequestWithRetry_def split: prod.splits sum.splits)
  from makeRequest_videos_rounds [OF a] show ?thesis by (simp split: if_splits)
qed

lemma countEvents_split:
  assumes "\<And>e. B e \<Longrightarrow> A e"
  shows "countEvents A w = countEvents B w + countEvents (\<lambda>e. A e \<and> \<not> B e) w"
proof -
  have "length (filter A es) = length (filter B es) + length (filter (\<lambda>e. A e \<and> \<not> B e) es)" for es
    using assms by (induction es) auto
  then show ?thesis by (simp add: countEvents_def)
qed

lemma sendLivestreamNotification_deliveriesTo:
  assumes "sendLivestreamNotification cfg env n w = (rs, w')"
  shows "countEvents (isDeliveryTo c) w'
           \<le> countEvents (isDeliveryTo c) w + count_list (telegram_chatIds cfg) c"
proof -
  let ?v = "video_id (video n)"
  let ?rest = "\<lambda>e. isDeliveryTo c e \<and> \<not> isDelivery c ?v e"
  note f = sendLivestreamNotification_effect [OF assms]
  have sub: "isDelivery c ?v e \<Longrightarrow> isDeliveryTo c e" for e
    by (simp add: isDelivery_def)
  have rest: "countEvents ?rest w' = countEvents ?rest w"
    by (rule f(7)) (simp_all add: isDelivery_def)
  have "countEvents (isDeliveryTo c) w' = countEvents (isDelivery c ?v) w' + countEvents ?rest w'"
    by (rule countEvents_split) (rule sub)
  also have "\<dots> = countEvents (isDelivery c ?v) w
       + length (filter (\<lambda>r. chatId r = c \<and> success r) rs) + countEvents ?rest w"
    using f(6) [of c] rest by simp
  also have "\<dots> = countEvents (isDeliveryTo c) w + length (filter (\<lambda>r. chatId r = c \<and> success r) rs)"
    using countEvents_split [of "isDelivery c ?v" "isDeliveryTo c" w, OF sub] by simp
  finally show ?thesis using successes_le_count [of c rs] f(1) by simp
qed

lemma processFeedEntry_bounds:
  fixes cfg :: AppConfig and env :: env and e :: feed_entry and w :: world
  defines "w' \<equiv> processFeedEntry cfg env e w"
  shows "fetchRounds w' \<le> fetchRounds w + 1"
    and "countEvents isFetch w' \<le> countEvents isFetch w + 3"
    and "countEvents isTagCheck w' \<le> countEvents isTagCheck w + 1"
    and "countEvents isAnyMark w' \<le> countEvents isAnyMark w + 1"
    and "countEvents (isDeliveryTo c) w'
           \<le> countEvents (isDeliveryTo c) w + count_list (telegram_chatIds cfg) c"
proof -
  have "fetchRounds w' \<le> fetchRounds w + 1
      \<and> countEvents isFetch w' \<le> countEvents isFetch w + 3
      \<and> countEvents isTagCheck w' \<le> countEvents isTagCheck w + 1
      \<and> countEvents isAnyMark w' \<le> countEvents isAnyMark w + 1
      \<and> countEvents (isDeliveryTo c) w'
           \<le> countEvents (isDeliveryTo c) w + count_list (telegram_chatIds cfg) c"
  proof (cases e rule: entryVideoId_cases)
    case (1 u)
    then have "w' = w" unfolding w'_def by (intro processFeedEntry_skip) simp
    then show ?thesis by simp
  next
    case 2
    then have "w' = w" unfolding w'_def by (intro processFeedEntry_skip) simp
    then show ?thesis by simp
  next
    case (3 x)
    show ?thesis
    proof (cases "x = []")
      case True
      with 3 have "w' = w" unfolding w'_def by (intro processFeedEntry_skip) simp
      then show ?thesis by simp
    next
      case ne: False
      let ?w1 = "w\<lparr>trace := trace w @ [RedisExists (KEY_PREFIX @ x)]\<rparr>"
      obtain b where hb: "hasBeenNotified env x w = (b, ?w1)"
        using hasBeenNotified_world [of env x w] by (cases "hasBeenNotified env x w") simp
      have s1: "fetchRounds ?w1 = fetchRounds w" "countEvents isFetch ?w1 = countEvents isFetch w"
          "countEvents isTagCheck ?w1 = countEvents isTagCheck w"
          "countEvents isAnyMark ?w1 = countEvents isAnyMark w"
          "countEvents (isDeliveryTo c) ?w1 = countEvents (isDeliveryTo c) w"
        by (simp_all add: fetchRounds_def roundStarts_append)
      show ?thesis
      proof (cases b)
        case True
        with 3 ne hb have "w' = ?w1" unfolding w'_def by (intro processFeedEntry_duplicate) simp_all
        with s1 show ?thesis by simp
      next
        case notlive: False
        obtain res w2 where gvm: "getVideoMetadata env x ?w1 = (res, w2)"
          by (cases "getVideoMetadata env x ?w1")
        note g = getVideoMetadata_effect [OF gvm]
        have s2: "fetchRounds w2 \<le> fetchRounds w + 1" "countEvents isFetch w2 \<le> countEvents isFetch w + 3"
          "countEvents isTagCheck w2 = countEvents isTagCheck w"
          "countEvents isAnyMark w2 = countEvents isAnyMark w"
          "countEvents (isDeliveryTo c) w2 = countEvents (isDeliveryTo c) w"
          using getVideoMetadata_rounds [OF gvm] g(4) g(5) [of isTagCheck] g(5) [of isAnyMark]
            g(5) [of "isDeliveryTo c"] s1
          by (simp_all add: YT_MAX_RETRIES_def)
        show ?thesis
        proof (cases res)
          case None
          with 3 ne hb notlive gvm have "w' = w2" unfolding w'_def
            by (intro processFeedEntry_no_metadata) simp_all
          with s2 show ?thesis by simp
        next
          case (Some md)
          let ?wt = "w2\<lparr>trace := trace w2 @ [LogLiveTag (video_id md) (containsLiveTag (description md))]\<rparr>"
          have sn: "shouldNotifyForVideo md w2 = (containsLiveTag (description md), ?wt)"
            by (simp add: shouldNotifyForVideo_def Let_def)
          have st: "fetchRounds ?wt \<le> fetchRounds w + 1"
            "countEvents isFetch ?wt \<le> countEvents isFetch w + 3"
            "countEvents isTagCheck ?wt = countEvents isTagCheck w + 1"
            "countEvents isAnyMark ?wt = countEvents isAnyMark w"
            "countEvents (isDeliveryTo c) ?wt = countEvents (isDeliveryTo c) w"
            using s2 by (simp_all add: fetchRounds_def roundStarts_append)
          show ?thesis
          proof (cases "containsLiveTag (description md)")
            case False
            with Some 3 ne hb notlive gvm sn have "w' = ?wt" unfolding w'_def
              by (intro processFeedEntry_no_tag [where md = md and ?w2.0 = w2 and ?w3.0 = "?wt"]) simp_all
            with st show ?thesis by simp
          next
            case True
            let ?n = "\<lparr>video = md, platforms = config_platforms cfg, detectedAt = now ?wt\<rparr>"
            obtain rs w3 where sl: "sendLivestreamNotification cfg env ?n ?wt = (rs, w3)"
              by (cases "sendLivestreamNotification cfg env ?n ?wt")
            note f = sendLivestreamNotification_effect [OF sl]
            from True Some 3 ne hb notlive gvm sn sl have w': "w' = markAsNotified env x w3" unfolding w'_def
              by (intro processFeedEntry_notify [where md = md and rs = rs and ?w2.0 = w2 and ?w3.0 = "?wt"]) simp_all
            have f3: "countEvents isFetch w3 = countEvents isFetch ?wt"
              by (rule f(7)) simp_all
            have r3: "fetchRounds w3 = fetchRounds ?wt"
              using f(5) f3 by (rule fetchRounds_unchanged)
            have t3: "countEvents isTagCheck w3 = countEvents isTagCheck ?wt"
              by (rule f(7)) simp_all
            have m3: "countEvents isAnyMark w3 = countEvents isAnyMark ?wt"
              by (rule f(7)) simp_all
            note d3 = sendLivestreamNotification_deliveriesTo [OF sl, of c]
            have p: "prefix (trace w3) (trace w')" by (simp add: w' markAsNotified_trace)
            have f4: "countEvents isFetch w' = countEvents isFetch w3"
              by (simp add: w' markAsNotified_count)
            have r4: "fetchRounds w' = fetchRounds w3" using p f4 by (rule fetchRounds_unchanged)
            have t4: "countEvents isTagCheck w' = countEvents isTagCheck w3"
              by (simp add: w' markAsNotified_count)
            have m4: "countEvents isAnyMark w' = countEvents isAnyMark w3 + 1"
              by (simp add: w' markAsNotified_count)
            have d4: "countEvents (isDeliveryTo c) w' = countEvents (isDeliveryTo c) w3"
              by (simp add: w' markAsNotified_count)
            from st f3 r3 t3 m3 d3 f4 r4 t4 m4 d4 show ?thesis by simp
          qed
        qed
      qed
    qed
  qed
  then show "fetchRounds w' \<le> fetchRounds w + 1"
    and "countEvents isFetch w' \<le> countEvents isFetch w + 3"
    and "countEvents isTagCheck w' \<le> countEvents isTagCheck w + 1"
    and "countEvents isAnyMark w' \<le> countEvents isAnyMark w + 1"
    and "countEvents (isDeliveryTo c) w'
           \<le> countEvents (isDeliveryTo c) w + count_list (telegram_chatIds cfg) c"
    by simp_all
qed

lemma processEntries_bounds:
  "fetchRounds (processEntries cfg env es w) \<le> fetchRounds w + length es
   \<and> countEvents isFetch (processEntries cfg env es w) \<le> countEvents isFetch w + 3 * length es
   \<and> countEvents isTagCheck (processEntries cfg env es w) \<le> countEvents isTagCheck w + length es
   \<and> countEvents isAnyMark (processEntries cfg env es w) \<le> countEvents isAnyMark w + length es
   \<and> countEvents (isDeliveryTo c) (processEntries cfg env es w)
        \<le> countEvents (isDeliveryTo c) w + length es * count_list (telegram_chatIds cfg) c"
proof (induction es arbitrary: w)
  case Nil
  show ?case by simp
next
  case (Cons e es)
  let ?w1 = "processFeedEntry cfg env e w"
  note b = processFeedEntry_bounds(1-4) [where cfg = cfg and env = env and e = e and w = w]
  note d = processFeedEntry_bounds(5) [where cfg = cfg and env = env and e = e and w = w and c = c]
  from Cons.IH [of ?w1] b d show ?case by simp
qed

section \<open>Delivery and marking\<close>

text \<open>
  C1. An entry that passes the duplicate check, the metadata fetch and the tag filter is
  marked as notified once the fan-out has returned its outcome list, whatever the outcomes
  are: \<open>processFeedEntry\<close> ends with \<open>markAsNotified\<close> on the world the fan-out left, the last
  command it sends is the \<^verbatim>\<open>SETEX\<close> of the item's key, and when that command reaches the
  store the key is there with the 24-hour expiry. Nothing is assumed about \<open>results\<close>: every
  destination may have failed.
\<close>

theorem marked_after_fanout:
  assumes "entryVideoId e = Inr (Some v)" and "v \<noteq> []"
    and "hasBeenNotified env v w = (False, w1)"
    and "getVideoMetadata env v w1 = (Some md, w2)"
    and "shouldNotifyForVideo md w2 = (True, w3)"
    and "sendLivestreamNotification cfg env
           \<lparr>video = md, platforms = config_platforms cfg, detectedAt = now w3\<rparr> w3 = (results, w4)"
  shows "processFeedEntry cfg env e w = markAsNotified env v w4
     \<and> trace (processFeedEntry cfg env e w) = trace w4 @ [RedisSetex (KEY_PREFIX @ v) TTL_SECONDS ''1'']
     \<and> (redis_reachable env w4 \<longrightarrow>
          redis_keys (processFeedEntry cfg env e w) (KEY_PREFIX @ v)
            = Some (''1'', now w4 + TTL_SECONDS * 1000))"
proof -
  have eq: "processFeedEntry cfg env e w = markAsNotified env v w4"
    using assms by (rule processFeedEntry_notify)
  show ?thesis
    unfolding eq by (simp add: markAsNotified_trace markAsNotified_reachable)
qed

theorem marked_after_fanout_witness:
  "map success (fst (sendLivestreamNotification cfg0 env_no_delivery example_notification example_fetched))
     = [False, False, False]
   \<and> trace (processFeedEntry cfg0 env_no_delivery (Entry (Some [''abc123''])) world0)
     = trace (snd (sendLivestreamNotification cfg0 env_no_delivery example_notification example_fetched))
       @ [RedisSetex ''youtube-livestream:abc123'' 86400 ''1'']
   \<and> redis_keys (processFeedEntry cfg0 env_no_delivery (Entry (Some [''abc123''])) world0)
        ''youtube-livestream:abc123'' = Some (''1'', 86418000)"
proof -
  let ?S = "sendLivestreamNotification cfg0 env_no_delivery example_notification example_fetched"
  let ?w2 = "world0\<lparr>trace := [RedisExists ''youtube-livestream:abc123'', AxiosGet ''abc123'']\<rparr>"
  have h1: "entryVideoId (Entry (Some [''abc123''])) = Inr (Some ''abc123'')"
    by (simp add: entryVideoId_def)
  have h2: "''abc123'' \<noteq> []" by simp
  have h3: "hasBeenNotified env_no_delivery ''abc123'' world0
      = (False, world0\<lparr>trace := [RedisExists ''youtube-livestream:abc123'']\<rparr>)"
    by (simp add: example_defs pipeline_defs)
  have h4: "getVideoMetadata env_no_delivery ''abc123''
        (world0\<lparr>trace := [RedisExists ''youtube-livestream:abc123'']\<rparr>)
      = (Some (video example_notification), ?w2)"
    by (simp add: example_defs pipeline_defs makeRequest_eval example_notification_def)
  have h5: "shouldNotifyForVideo (video example_notification) ?w2 = (True, example_fetched)"
    by (simp add: shouldNotifyForVideo_def example_notification_def example_fetched_def
          live_description world0_def)
  have h6: "sendLivestreamNotification cfg0 env_no_delivery
           \<lparr>video = video example_notification, platforms = config_platforms cfg0,
            detectedAt = now example_fetched\<rparr> example_fetched = (fst ?S, snd ?S)"
    by (simp add: example_notification_def example_fetched_def world0_def)
  have r: "redis_reachable env_no_delivery (snd ?S)"
    by (simp add: example_defs)
  have n: "now (snd ?S) = 18000"
    by (simp add: example_defs pipeline_defs sendToChat_eval example_notification_def example_fetched_def)
  have s: "map success (fst ?S) = [False, False, False]"
    by (simp add: example_defs pipeline_defs sendToChat_eval example_notification_def example_fetched_def)
  have k: "KEY_PREFIX @ ''abc123'' = ''youtube-livestream:abc123''" "TTL_SECONDS = 86400"
    by (simp_all add: KEY_PREFIX_def TTL_SECONDS_def)
  note m = marked_after_fanout [OF h1 h2 h3 h4 h5 h6, unfolded k n]
  from m have t: "trace (processFeedEntry cfg0 env_no_delivery (Entry (Some [''abc123''])) world0)
     = trace (snd ?S) @ [RedisSetex ''youtube-livestream:abc123'' 86400 ''1'']"
    by (rule conjunct2 [THEN conjunct1])
  from m r have "redis_keys (processFeedEntry cfg0 env_no_delivery (Entry (Some [''abc123''])) world0)
        ''youtube-livestream:abc123'' = Some (''1'', 18000 + 86400 * 1000)"
    by blast
  with s t show ?thesis by simp
qed

text \<open>
  Among outcomes with pairwise different destinations, the successful outcomes for the
  destination of \<open>r\<close> are \<open>r\<close> itself or none.
\<close>

lemma distinct_successes:
  "distinct (map chatId rs) \<Longrightarrow> r \<in> set rs \<Longrightarrow>
   length (filter (\<lambda>x. chatId x = chatId r \<and> success x) rs) = (if success r then 1 else 0)"
proof (induction rs)
  case Nil
  then show ?case by simp
next
  case (Cons a rs)
  show ?case
  proof (cases "r = a")
    case True
    from Cons.prems have "chatId a \<notin> chatId ` set rs" by simp
    then have "\<forall>x\<in>set rs. chatId x \<noteq> chatId a" by (metis imageI)
    with True have "\<forall>x\<in>set rs. chatId x \<noteq> chatId r" by simp
    then have "filter (\<lambda>x. chatId x = chatId r \<and> success x) rs = []"
      by (auto simp: filter_empty_conv)
    with True show ?thesis by simp
  next
    case False
    with Cons.prems have mem: "r \<in> set rs" by simp
    from Cons.prems have "chatId a \<notin> chatId ` set rs" by simp
    with mem have ne: "chatId a \<noteq> chatId r" by (metis imageI)
    from Cons.prems have "distinct (map chatId rs)" by simp
    from Cons.IH [OF this mem] ne show ?thesis by simp
  qed
qed

text \<open>
  C2. The fan-out returns one outcome per configured destination, in the configured order.
  For every destination, the number of its successful outcomes is the number of messages
  the platform accepted for it during the fan-out; with pairwise different destinations an
  outcome is successful exactly when a message to its destination was accepted. A failed
  outcome carries an error text. Failing destinations take no outcome away and move none.
\<close>

theorem fanout_one_outcome_per_destination:
  assumes "sendLivestreamNotification cfg env n w = (results, w')"
  shows "map chatId results = telegram_chatIds cfg
     \<and> (\<forall>c. countEvents (isDelivery c (video_id (video n))) w'
             = countEvents (isDelivery c (video_id (video n))) w
               + length (filter (\<lambda>r. chatId r = c \<and> success r) results))
     \<and> (distinct (telegram_chatIds cfg) \<longrightarrow>
          (\<forall>r\<in>set results. success r \<longleftrightarrow>
             countEvents (isDelivery (chatId r) (video_id (video n))) w'
               = countEvents (isDelivery (chatId r) (video_id (video n))) w + 1))
     \<and> (\<forall>r\<in>set results. \<not> success r \<longrightarrow> error r \<noteq> None)"
proof -
  note f = sendLivestreamNotification_effect [OF assms]
  have a: "map chatId results = telegram_chatIds cfg" by (rule f(1))
  have b: "\<forall>c. countEvents (isDelivery c (video_id (video n))) w'
             = countEvents (isDelivery c (video_id (video n))) w
               + length (filter (\<lambda>r. chatId r = c \<and> success r) results)"
    using f(6) by blast
  have c: "success r \<longleftrightarrow>
             countEvents (isDelivery (chatId r) (video_id (video n))) w'
               = countEvents (isDelivery (chatId r) (video_id (video n))) w + 1"
    if "distinct (telegram_chatIds cfg)" "r \<in> set results" for r
  proof -
    from that a have "distinct (map chatId results)" by simp
    from distinct_successes [OF this that(2)] f(6) [of "chatId r"] show ?thesis by simp
  qed
  from a b c f(2) show ?thesis by blast
qed

theorem fanout_one_outcome_per_destination_witness:
  "fst (sendLivestreamNotification cfg0 env_healthy example_notification world0)
     = [\<lparr>success = True, chatId = ''A'', error = None, timestamp = 0\<rparr>,
        \<lparr>success = False, chatId = ''B'', error = Some ''Forbidden'', timestamp = 0\<rparr>,
        \<lparr>success = True, chatId = ''C'', error = None, timestamp = 6000\<rparr>]
   \<and> countEvents (isDelivery ''A'' ''abc123'')
       (snd (sendLivestreamNotification cfg0 env_healthy example_notification world0)) = 1
   \<and> countEvents (isDelivery ''B'' ''abc123'')
       (snd (sendLivestreamNotification cfg0 env_healthy example_notification world0)) = 0"
proof -
  let ?S = "sendLivestreamNotification cfg0 env_healthy example_notification world0"
  have h: "?S = (fst ?S, snd ?S)" by simp
  have s: "fst ?S = [\<lparr>success = True, chatId = ''A'', error = None, timestamp = 0\<rparr>,
        \<lparr>success = False, chatId = ''B'', error = Some ''Forbidden'', timestamp = 0\<rparr>,
        \<lparr>success = True, chatId = ''C'', error = None, timestamp = 6000\<rparr>]"
    by (simp add: example_defs pipeline_defs sendToChat_eval example_notification_def)
  have z: "countEvents (isDelivery c ''abc123'') world0 = 0" for c
    by (simp add: countEvents_def world0_def)
  have v: "video_id (video example_notification) = ''abc123''" by (simp add: example_notification_def)
  note f = fanout_one_outcome_per_destination [OF h, unfolded v z s, THEN conjunct2, THEN conjunct1, rule_format]
  from f [of "''A''"] f [of "''B''"] s show ?thesis by simp
qed

section \<open>The Duplicate Suppressor\<close>

text \<open>
  C3. After \<open>markAsNotified\<close> has reached the store, \<open>hasBeenNotified\<close> on the same item
  answers true while at most 24 hours have passed on the clock, and false after that
  (the store is reachable when it is asked; with an unreachable store the answer is false,
  which is C9).
\<close>

theorem notified_until_expiry:
  assumes "redis_reachable env w"
    and "redis_reachable env (advance elapsed (markAsNotified env v w))"
  shows "fst (hasBeenNotified env v (advance elapsed (markAsNotified env v w)))
           = (elapsed \<le> TTL_SECONDS * 1000)"
  using assms
  by (simp add: hasBeenNotified_reachable markAsNotified_reachable redis_live_def advance_def)

theorem notified_until_expiry_witness:
  "fst (hasBeenNotified env_healthy ''abc123''
          (advance 86400000 (markAsNotified env_healthy ''abc123'' world0)))
   \<and> \<not> fst (hasBeenNotified env_healthy ''abc123''
          (advance 86400001 (markAsNotified env_healthy ''abc123'' world0)))"
proof -
  have r: "redis_reachable env_healthy x" for x by (simp add: env_healthy_def)
  from notified_until_expiry [where env = env_healthy and v = "''abc123''" and w = world0
           and elapsed = 86400000, OF r r]
       notified_until_expiry [where env = env_healthy and v = "''abc123''" and w = world0
           and elapsed = 86400001, OF r r]
  show ?thesis by (simp add: TTL_SECONDS_def)
qed




section \<open>The Metadata Fetcher\<close>

text \<open>The Number value of an integer is 0 only for 0, and so is its product with 1000.\<close>

lemma bitLength_lower: "0 < n \<Longrightarrow> 2 ^ (bitLength n - 1) \<le> n"
proof (induction n rule: bitLength.induct)
  case (1 n)
  show ?case
  proof (cases "n div 2 \<le> 0")
    case True
    with "1.prems" have "n = 1" by presburger
    then show ?thesis by (simp add: bitLength.simps [of 1] bitLength.simps [of 0])
  next
    case False
    then have pos: "0 < n div 2" by simp
    from "1.IH" [OF _ pos] "1.prems" have ih: "2 ^ (bitLength (n div 2) - 1) \<le> n div 2" by simp
    have "0 < bitLength (n div 2)" using pos by (subst bitLength.simps) simp
    then obtain k where k: "bitLength (n div 2) = Suc k" by (cases "bitLength (n div 2)") auto
    have bl: "bitLength n = Suc (Suc k)" using "1.prems" k by (subst bitLength.simps) simp
    from ih k have "2 ^ k \<le> n div 2" by simp
    then have "2 * 2 ^ k \<le> n" by presburger
    with bl show ?thesis by simp
  qed
qed

lemma roundToEven53_pos: "0 < m \<Longrightarrow> 0 < roundToEven53 m"
proof -
  assume pos: "0 < m"
  let ?e = "bitLength m - 53"
  have "(2::int) ^ ?e \<le> 2 ^ (bitLength m - 1)" by (intro power_increasing) auto
  with bitLength_lower [OF pos] have le: "2 ^ ?e \<le> m" by linarith
  have "0 < m div 2 ^ ?e" using le by (simp add: pos_imp_zdiv_pos_iff)
  then have "0 < (if 2 ^ ?e < 2 * (m mod 2 ^ ?e) \<or> (2 * (m mod 2 ^ ?e) = 2 ^ ?e \<and> odd (m div 2 ^ ?e))
                  then m div 2 ^ ?e + 1 else m div 2 ^ ?e)" by simp
  then show ?thesis unfolding roundToEven53_def Let_def by (simp del: if_split add: zero_less_mult_iff)
qed

lemma toNumber_zero: "isZero (toNumber x) \<longleftrightarrow> x = 0"
proof (cases "\<bar>x\<bar> \<le> 2 ^ 53")
  case True
  then show ?thesis by (simp add: toNumber_def isZero_def)
next
  case False
  then have "x \<noteq> 0" by auto
  then have "0 < \<bar>x\<bar>" by simp
  from roundToEven53_pos [OF this] False \<open>x \<noteq> 0\<close> show ?thesis
    by (auto simp: toNumber_def isZero_def Let_def)
qed

lemma times1000_zero: "isZero (times1000 (toNumber x)) \<longleftrightarrow> x = 0"
proof (cases "toNumber x")
  case (Num n)
  then have "isZero (times1000 (toNumber x)) \<longleftrightarrow> n * 1000 = 0"
    by (simp add: times1000_def toNumber_zero)
  also have "\<dots> \<longleftrightarrow> isZero (toNumber x)" using Num by (simp add: isZero_def)
  finally show ?thesis by (simp add: toNumber_zero)
next
  case PosInfinity
  then have "\<not> isZero (toNumber x)" by (simp add: isZero_def)
  then have "x \<noteq> 0" by (simp add: toNumber_zero)
  moreover have "\<not> isZero (times1000 (toNumber x))" using PosInfinity by (simp add: times1000_def isZero_def)
  ultimately show ?thesis by simp
next
  case NegInfinity
  then have "\<not> isZero (toNumber x)" by (simp add: isZero_def)
  then have "x \<noteq> 0" by (simp add: toNumber_zero)
  moreover have "\<not> isZero (times1000 (toNumber x))" using NegInfinity by (simp add: times1000_def isZero_def)
  ultimately show ?thesis by simp
qed

lemma times1000_exact: "\<bar>n\<bar> * 1000 \<le> 2 ^ 53 \<Longrightarrow> times1000 (toNumber n) = Num (n * 1000)"
proof -
  assume a: "\<bar>n\<bar> * 1000 \<le> 2 ^ 53"
  then have "\<bar>n\<bar> \<le> 2 ^ 53" by linarith
  moreover from a have "\<bar>n * 1000\<bar> \<le> 2 ^ 53" by (simp add: abs_mult)
  ultimately show ?thesis by (simp add: times1000_def toNumber_def)
qed

lemma parseInt10_default: "parseInt10 (decimal YT_RETRY_DELAY_MS) = Some (Num 1000)"
  by code_simp

lemma rateLimitDelay_integer:
  assumes "mathInt10 (retryAfter header) = Some n"
  shows "rateLimitDelay header attempt
           = (if n = 0 then Num (int (YT_RETRY_DELAY_MS * attempt)) else times1000 (toNumber n))"
  using assms by (simp add: rateLimitDelay_def parseInt10_def times1000_zero)

text \<open>
  A \<^verbatim>\<open>Retry-After\<close> header may carry an HTTP date. The header is present, \<^verbatim>\<open>parseInt\<close>
  finds no number in it, and the delay is the attempt number times the base delay: it
  follows the attempt, not the header.
\<close>

theorem retry_after_date_counterexample:
  "isRateLimited (AxiosError (Some \<lparr>status = 429, retry_after = Some ''Wed, 21 Oct 2015 07:28:00 GMT''\<rparr>))
   \<and> retryDelay (AxiosError (Some \<lparr>status = 429, retry_after = Some ''Wed, 21 Oct 2015 07:28:00 GMT''\<rparr>)) 1
       = Some (Num 1000)
   \<and> retryDelay (AxiosError (Some \<lparr>status = 429, retry_after = Some ''Wed, 21 Oct 2015 07:28:00 GMT''\<rparr>)) 2
       = Some (Num 2000)"
  by code_simp

text \<open>
  C6 (as amended). After a failed attempt with status 429: when the retry hint header is
  present and starts, after optional white space and sign, with a decimal integer \<open>n\<close> other
  than 0, the delay is what JavaScript computes for \<^verbatim>\<open>parseInt(header, 10) * 1000\<close>: the
  double-precision value of \<open>n\<close> multiplied by 1000 in double precision, which is \<open>n\<close> times
  1000 ms exactly while that does not exceed \<open>2 ^ 53\<close> in size; when the header is present
  without such an integer (none, or 0), the delay is the attempt number times the base
  delay of 1000 ms; when the header is absent or empty, the delay is the same at every
  attempt (1000000 ms). After any other failure the delay is the attempt number times the
  base delay before the last attempt, and there is no delay after the last attempt.
\<close>

theorem retry_delay_rules:
  "(isRateLimited e \<and> retryAfterHeader e = Some h \<and> h \<noteq> [] \<and> mathInt10 h = Some n \<and> n \<noteq> 0
      \<longrightarrow> retryDelay e attempt = Some (times1000 (toNumber n))
          \<and> (\<bar>n\<bar> * 1000 \<le> 2 ^ 53 \<longrightarrow> retryDelay e attempt = Some (Num (n * 1000))))
   \<and> (isRateLimited e \<and> retryAfterHeader e = Some h \<and> h \<noteq> []
        \<and> (mathInt10 h = None \<or> mathInt10 h = Some 0)
      \<longrightarrow> retryDelay e attempt = Some (Num (int (YT_RETRY_DELAY_MS * attempt))))
   \<and> (isRateLimited e \<and> (retryAfterHeader e = None \<or> retryAfterHeader e = Some [])
      \<longrightarrow> retryDelay e attempt = Some (Num 1000000))
   \<and> (\<not> isRateLimited e \<and> attempt < YT_MAX_RETRIES
      \<longrightarrow> retryDelay e attempt = Some (Num (int (YT_RETRY_DELAY_MS * attempt))))
   \<and> (\<not> isRateLimited e \<and> YT_MAX_RETRIES \<le> attempt \<longrightarrow> retryDelay e attempt = None)"
proof -
  have a: "retryDelay e attempt = Some (times1000 (toNumber n))"
    if "isRateLimited e" "retryAfterHeader e = Some h" "h \<noteq> []" "mathInt10 h = Some n" "n \<noteq> 0"
    using that rateLimitDelay_integer [of "Some h" n attempt]
    by (simp add: retryDelay_def retryAfter_def)
  have b: "retryDelay e attempt = Some (Num (int (YT_RETRY_DELAY_MS * attempt)))"
    if "isRateLimited e" "retryAfterHeader e = Some h" "h \<noteq> []"
       "mathInt10 h = None \<or> mathInt10 h = Some 0"
    using that rateLimitDelay_integer [of "Some h" 0 attempt]
    by (auto simp: retryDelay_def retryAfter_def rateLimitDelay_def parseInt10_def)
  have c: "retryDelay e attempt = Some (Num 1000000)"
    if "isRateLimited e" "retryAfterHeader e = None \<or> retryAfterHeader e = Some []"
    using that
    by (auto simp: retryDelay_def rateLimitDelay_def retryAfter_def parseInt10_default
          times1000_def toNumber_def isZero_def)
  have d: "retryDelay e attempt = Some (Num (int (YT_RETRY_DELAY_MS * attempt)))"
    if "\<not> isRateLimited e" "attempt < YT_MAX_RETRIES"
    using that by (simp add: retryDelay_def genericDelay_def)
  have e: "retryDelay e attempt = None" if "\<not> isRateLimited e" "YT_MAX_RETRIES \<le> attempt"
    using that by (simp add: retryDelay_def)
  from a b c d e times1000_exact [of n] show ?thesis by auto
qed

theorem retry_delay_rules_witness:
  "retryDelay (AxiosError (Some \<lparr>status = 429, retry_after = Some ''120''\<rparr>)) 1 = Some (Num 120000)
   \<and> retryDelay (AxiosError (Some \<lparr>status = 429, retry_after = Some ''9007199254740993''\<rparr>)) 1
       = Some (Num 9007199254740992000)
   \<and> retryDelay (AxiosError (Some \<lparr>status = 429, retry_after = Some ''soon''\<rparr>)) 2 = Some (Num 2000)
   \<and> retryDelay (AxiosError (Some \<lparr>status = 429, retry_after = None\<rparr>)) 2 = Some (Num 1000000)
   \<and> retryDelay (OtherError ''timeout'') 2 = Some (Num 2000)
   \<and> retryDelay (OtherError ''timeout'') 3 = None"
proof -
  let ?e = "\<lambda>h. AxiosError (Some \<lparr>status = 429, retry_after = h\<rparr>)"
  have rl: "isRateLimited (?e h)" "retryAfterHeader (?e h) = h" for h
    by (simp_all add: isRateLimited_def retryAfterHeader_def)
  have ot: "\<not> isRateLimited (OtherError ''timeout'')" by (simp add: isRateLimited_def)
  have p1: "mathInt10 ''120'' = Some 120" by code_simp
  have p2: "mathInt10 ''soon'' = None" by code_simp
  have p3: "mathInt10 ''9007199254740993'' = Some 9007199254740993" by code_simp
  have r3: "times1000 (toNumber 9007199254740993) = Num 9007199254740992000" by code_simp
  have a: "retryDelay (?e (Some ''120'')) 1 = Some (Num (120 * 1000))"
    using retry_delay_rules [of "?e (Some ''120'')" "''120''" 120 1] rl p1
    by (simp add: times1000_def toNumber_def)
  have a': "retryDelay (?e (Some ''9007199254740993'')) 1 = Some (times1000 (toNumber 9007199254740993))"
    using retry_delay_rules [of "?e (Some ''9007199254740993'')" "''9007199254740993''"
        9007199254740993 1] rl p3 by simp
  have b: "retryDelay (?e (Some ''soon'')) 2 = Some (Num (int (YT_RETRY_DELAY_MS * 2)))"
    using retry_delay_rules [of "?e (Some ''soon'')" "''soon''" 0 2] rl p2 by simp
  have c: "retryDelay (?e None) 2 = Some (Num 1000000)"
    using retry_delay_rules [of "?e None" "[]" 0 2] rl by simp
  have d: "retryDelay (OtherError ''timeout'') 2 = Some (Num (int (YT_RETRY_DELAY_MS * 2)))"
    using retry_delay_rules [of "OtherError ''timeout''" "[]" 0 2] ot by (simp add: YT_MAX_RETRIES_def)
  have e: "retryDelay (OtherError ''timeout'') 3 = None"
    using retry_delay_rules [of "OtherError ''timeout''" "[]" 0 3] ot by (simp add: YT_MAX_RETRIES_def)
  from a a' b c d e show ?thesis by (simp add: YT_RETRY_DELAY_MS_def r3)
qed

text \<open>
  One metadata fetch sends at most three requests.
\<close>

lemma getVideoMetadata_at_most_three:
  "countEvents isFetch (snd (getVideoMetadata env v w)) \<le> countEvents isFetch w + 3"
proof -
  obtain res w' where g: "getVideoMetadata env v w = (res, w')"
    by (cases "getVideoMetadata env v w")
  from getVideoMetadata_effect(4) [OF g] g show ?thesis by (simp add: YT_MAX_RETRIES_def)
qed

text \<open>
  C7. When the request fails at the first and at the second attempt and succeeds at the
  third, \<open>getVideoMetadata\<close> returns the metadata of the third response, and what
  it did is exactly: request, sleep, request, sleep, request, with the two delays of the two
  failures. No metadata fetch sends more than three requests.
\<close>

theorem fetch_succeeds_on_third_attempt:
  fixes env :: env and v :: string and w :: world and d1 d2 :: number
  defines "w1 \<equiv> sleep d1 (w\<lparr>trace := trace w @ [AxiosGet v]\<rparr>)"
  defines "w2 \<equiv> sleep d2 (w1\<lparr>trace := trace w1 @ [AxiosGet v]\<rparr>)"
  assumes "axios_get env v w = Inl e1" and "retryDelay e1 1 = Some d1"
    and "axios_get env v w1 = Inl e2" and "retryDelay e2 2 = Some d2"
    and "axios_get env v w2 = Inr response"
  shows "getVideoMetadata env v w = (metadataOf v response, w2\<lparr>trace := trace w2 @ [AxiosGet v]\<rparr>)
     \<and> trace (snd (getVideoMetadata env v w))
         = trace w @ [AxiosGet v, Sleep d1, AxiosGet v, Sleep d2, AxiosGet v]
     \<and> (\<forall>item rest sn. data_items response = Some (item # rest) \<and> item_snippet item = Some sn \<longrightarrow>
          fst (getVideoMetadata env v w)
            = Some \<lparr>video_id = v, title = snippet_title sn, description = snippet_description sn,
                    publishedAt = snippet_publishedAt sn, thumbnailUrl = thumbnailOf sn,
                    channelTitle = snippet_channelTitle sn, channelId = snippet_channelId sn\<rparr>)
     \<and> (\<forall>env' v' w'. countEvents isFetch (snd (getVideoMetadata env' v' w'))
            \<le> countEvents isFetch w' + 3)"
proof -
  let ?rq = "videosRequest env v"
  let ?w3 = "w2\<lparr>trace := trace w2 @ [AxiosGet v]\<rparr>"
  have r1: "?rq w = (Inl e1, w\<lparr>trace := trace w @ [AxiosGet v]\<rparr>)"
    using assms(3) by (simp add: videosRequest_def)
  have r2: "?rq w1 = (Inl e2, w1\<lparr>trace := trace w1 @ [AxiosGet v]\<rparr>)"
    using assms(5) by (simp add: videosRequest_def)
  have r3: "?rq w2 = (Inr response, ?w3)"
    using assms(7) by (simp add: videosRequest_def)
  have "makeRequestWithRetry_from ?rq 1 None w = makeRequestWithRetry_from ?rq 2 (Some e1) w1"
    using makeRequestWithRetry_from_sleep [where requestFn = "?rq" and w = w and attempt = 1
        and le = None, OF _ r1 assms(4)]
    by (simp add: YT_MAX_RETRIES_def w1_def eval_nat_numeral)
  also have "\<dots> = makeRequestWithRetry_from ?rq 3 (Some e2) w2"
    using makeRequestWithRetry_from_sleep [where requestFn = "?rq" and w = w1 and attempt = 2
        and le = "Some e1", OF _ r2 assms(6)]
    by (simp add: YT_MAX_RETRIES_def w2_def eval_nat_numeral)
  also have "\<dots> = (Inr response, ?w3)"
    using makeRequestWithRetry_from_ok [where requestFn = "?rq" and w = w2 and attempt = 3
        and le = "Some e2", OF _ r3]
    by (simp add: YT_MAX_RETRIES_def)
  finally have g: "getVideoMetadata env v w = (metadataOf v response, ?w3)"
    by (simp add: getVideoMetadata_def makeRequestWithRetry_def)
  have t: "trace ?w3 = trace w @ [AxiosGet v, Sleep d1, AxiosGet v, Sleep d2, AxiosGet v]"
    by (simp add: w1_def w2_def sleep_def)
  have m: "metadataOf v response
            = Some \<lparr>video_id = v, title = snippet_title sn, description = snippet_description sn,
                    publishedAt = snippet_publishedAt sn, thumbnailUrl = thumbnailOf sn,
                    channelTitle = snippet_channelTitle sn, channelId = snippet_channelId sn\<rparr>"
    if "data_items response = Some (item # rest)" "item_snippet item = Some sn" for item rest sn
    using that by (simp add: metadataOf_def)
  from g t m getVideoMetadata_at_most_three show ?thesis by simp
qed

theorem fetch_succeeds_on_third_attempt_witness:
  "getVideoMetadata env_flaky_api ''abc123'' world0
     = (Some (video example_notification),
        world0\<lparr>now := 8000,
               trace := [AxiosGet ''abc123'', Sleep (Num 1000), AxiosGet ''abc123'', Sleep (Num 7000),
                         AxiosGet ''abc123'']\<rparr>)"
proof -
  let ?e1 = "OtherError ''timeout''"
  let ?e2 = "AxiosError (Some \<lparr>status = 429, retry_after = Some ''7''\<rparr>)"
  let ?w1 = "sleep (Num 1000) (world0\<lparr>trace := trace world0 @ [AxiosGet ''abc123'']\<rparr>)"
  let ?w2 = "sleep (Num 7000) (?w1\<lparr>trace := trace ?w1 @ [AxiosGet ''abc123'']\<rparr>)"
  have p: "parseInt10 ''7'' = Some (Num 7)" by code_simp
  have a1: "axios_get env_flaky_api ''abc123'' world0 = Inl ?e1"
    by (simp add: example_defs countEvents_def)
  have d1: "retryDelay ?e1 1 = Some (Num 1000)"
    by (simp add: retryDelay_def isRateLimited_def genericDelay_def YT_MAX_RETRIES_def YT_RETRY_DELAY_MS_def)
  have a2: "axios_get env_flaky_api ''abc123'' ?w1 = Inl ?e2"
    by (simp add: example_defs countEvents_def sleep_def timerDelay_def isFetch_def)
  have d2: "retryDelay ?e2 2 = Some (Num 7000)"
    by (simp add: retryDelay_def isRateLimited_def retryAfterHeader_def rateLimitDelay_def retryAfter_def p
          times1000_def toNumber_def isZero_def)
  have a3: "axios_get env_flaky_api ''abc123'' ?w2 = Inr liveVideo"
    by (simp add: example_defs countEvents_def sleep_def timerDelay_def isFetch_def)
  have m: "metadataOf ''abc123'' liveVideo = Some (video example_notification)"
    by (simp add: metadataOf_def liveVideo_def example_notification_def thumbnailOf_def)
  from fetch_succeeds_on_third_attempt [OF a1 d1 a2 d2 a3, THEN conjunct1] m
  show ?thesis by (simp add: sleep_def timerDelay_def world0_def)
qed

section \<open>The webhook\<close>

text \<open>
  C10. A verification request with mode \<^verbatim>\<open>subscribe\<close> and the expected topic but without
  a challenge is answered with status 200 and an empty body.
\<close>

theorem verification_without_challenge:
  "hub_mode q = Some ''subscribe'' \<Longrightarrow> hub_topic q = Some (TOPIC_URL cfg) \<Longrightarrow> hub_challenge q = None
   \<Longrightarrow> handleSubscriptionVerification cfg q = \<lparr>reply_status = 200, reply_text = []\<rparr>"
  by (simp add: handleSubscriptionVerification_def)

theorem verification_without_challenge_witness:
  "handleSubscriptionVerification cfg0
     \<lparr>hub_challenge = None, hub_mode = Some ''subscribe'',
      hub_topic = Some ''https://www.youtube.com/xml/feeds/videos.xml?channel_id=UC1453''\<rparr>
   = \<lparr>reply_status = 200, reply_text = []\<rparr>"
  using verification_without_challenge [of
     "\<lparr>hub_challenge = None, hub_mode = Some ''subscribe'',
      hub_topic = Some ''https://www.youtube.com/xml/feeds/videos.xml?channel_id=UC1453''\<rparr>" cfg0]
  by (simp add: TOPIC_URL_def cfg0_def)

text \<open>
  C8. A POST whose body can be read is answered with 200 when the body parses into a feed
  with an entry, and with 400 otherwise, whatever the collaborators do while the entries are
  processed: an entry that throws (\<open>NullEntry\<close>), is skipped, or whose fetch and sends all
  fail changes nothing in the reply.
\<close>

theorem webhook_reply_status:
  "body_text req = Some body \<Longrightarrow>
   reply_status (fst (handleWebSubCallback cfg env req w))
     = (if hasEntryStructure (parseXmlPayload env body) then 200 else 400)"
  by (simp add: handleWebSubCallback_def hasEntryStructure_def split: option.splits)

theorem webhook_reply_status_witness:
  "reply_status (fst (handleWebSubCallback cfg0 env_api_down (example_request ''odd'') world0)) = 200
   \<and> reply_status (fst (handleWebSubCallback cfg0 env_api_down (example_request ''html'') world0)) = 400
   \<and> reply_status (fst (handleWebSubCallback cfg0 env_api_down (example_request ''<feed'') world0)) = 400"
proof -
  have b: "body_text (example_request x) = Some x" for x by (simp add: example_request_def)
  have s: "hasEntryStructure (parseXmlPayload env_api_down ''odd'')"
    "\<not> hasEntryStructure (parseXmlPayload env_api_down ''html'')"
    "\<not> hasEntryStructure (parseXmlPayload env_api_down ''<feed'')"
    by (simp_all add: hasEntryStructure_def parseXmlPayload_def example_defs)
  from webhook_reply_status [OF b, of cfg0 env_api_down "''odd''" world0]
       webhook_reply_status [OF b, of cfg0 env_api_down "''html''" world0]
       webhook_reply_status [OF b, of cfg0 env_api_down "''<feed''" world0] s
  show ?thesis by simp
qed

text \<open>
  A payload that names the same item twice. With the store unreachable the duplicate check
  fails open both times and destination A receives the notification twice; with a healthy
  store and a description without the marker, the item's metadata is fetched twice.
\<close>

theorem repeated_identifier_counterexample:
  "parseXmlPayload env_store_down ''twice''
       = Some (feedOf [Entry (Some [''abc123'']), Entry (Some [''abc123''])])
   \<and> countEvents (isDelivery ''A'' ''abc123'')
        (snd (handleWebSubCallback cfg0 env_store_down (example_request ''twice'') world0)) = 2
   \<and> countEvents isFetch
        (snd (handleWebSubCallback cfg0 env_no_tag (example_request ''twice'') world0)) = 2"
  by (simp add: example_defs pipeline_defs sendToChat_eval makeRequest_eval live_description
        plain_description countEvents_def example_request_def isDelivery_def isFetch_def)

text \<open>
  C5 (as amended). For a payload with N entries the handler runs each stage of the pipeline
  at most N times: it sends at most N duplicate checks, starts at most N metadata fetches
  (at most 3 N requests), runs the Tag Filter at most N times, and fans out at most N times
  (at most N marks, one after each fan-out, and to every destination at most N deliveries
  for each time it is listed in the configuration). Repeated identifiers within the payload
  are not filtered by the handler itself. When the store is reachable throughout and the
  handling takes no longer than the expiry window, every item is marked at most once during
  the payload, and no destination receives the notification for an item more often than it
  is listed in the configuration.
\<close>

theorem one_pass_per_entry:
  fixes cfg :: AppConfig and env :: env and req :: post_request and w :: world
  defines "w' \<equiv> snd (handleWebSubCallback cfg env req w)"
  assumes "body_text req = Some body" and "parseXmlPayload env body = Some parsedData"
    and "feed parsedData = Some f" and "entry f = Some ef"
  shows "countEvents isDupCheck w' \<le> countEvents isDupCheck w + length (entriesOf ef)
     \<and> fetchRounds w' \<le> fetchRounds w + length (entriesOf ef)
     \<and> countEvents isFetch w' \<le> countEvents isFetch w + 3 * length (entriesOf ef)
     \<and> countEvents isTagCheck w' \<le> countEvents isTagCheck w + length (entriesOf ef)
     \<and> countEvents isAnyMark w' \<le> countEvents isAnyMark w + length (entriesOf ef)
     \<and> (\<forall>c. countEvents (isDeliveryTo c) w'
            \<le> countEvents (isDeliveryTo c) w
               + length (entriesOf ef) * count_list (telegram_chatIds cfg) c)
     \<and> ((\<forall>x. redis_reachable env x) \<and> now w' \<le> now w + TTL_SECONDS * 1000 \<longrightarrow>
          (\<forall>v c. countEvents (isMark v) w' \<le> countEvents (isMark v) w + 1
               \<and> countEvents (isDelivery c v) w'
                   \<le> countEvents (isDelivery c v) w + count_list (telegram_chatIds cfg) c))"
proof -
  have w': "w' = processEntries cfg env (entriesOf ef) w"
    using assms(2-5) by (simp add: w'_def handleWebSubCallback_def)
  have a: "countEvents isDupCheck w' \<le> countEvents isDupCheck w + length (entriesOf ef)"
    unfolding w' by (rule processEntries_generic(2))
  note t = processEntries_bounds [where cfg = cfg and env = env and es = "entriesOf ef" and w = w,
      folded w']
  have b: "countEvents (isMark v) w' \<le> countEvents (isMark v) w + 1
               \<and> countEvents (isDelivery c v) w'
                   \<le> countEvents (isDelivery c v) w + count_list (telegram_chatIds cfg) c"
    if reach: "\<forall>x. redis_reachable env x" and fin: "now w' \<le> now w + TTL_SECONDS * 1000" for v c
  proof -
    have inv: "(countEvents (isDelivery c v) w = countEvents (isDelivery c v) w
               \<and> countEvents (isMark v) w = countEvents (isMark v) w)
            \<or> (countEvents (isDelivery c v) w \<le> countEvents (isDelivery c v) w + count_list (telegram_chatIds cfg) c
               \<and> countEvents (isMark v) w = countEvents (isMark v) w + 1
               \<and> (\<exists>ex. redis_keys w (KEY_PREFIX @ v) = Some (''1'', ex) \<and> now w + TTL_SECONDS * 1000 \<le> ex))"
      by simp
    from processEntries_target [OF reach order_refl inv fin [unfolded w']]
    show ?thesis unfolding w' by simp
  qed
  from a t b show ?thesis by blast
qed

theorem one_pass_per_entry_witness:
  "countEvents isDupCheck (snd (handleWebSubCallback cfg0 env_healthy (example_request ''twice'') world0)) \<le> 2
   \<and> fetchRounds (snd (handleWebSubCallback cfg0 env_healthy (example_request ''twice'') world0)) \<le> 2
   \<and> countEvents isTagCheck (snd (handleWebSubCallback cfg0 env_healthy (example_request ''twice'') world0)) \<le> 2
   \<and> countEvents isAnyMark (snd (handleWebSubCallback cfg0 env_healthy (example_request ''twice'') world0)) \<le> 2
   \<and> countEvents (isDeliveryTo ''A'')
        (snd (handleWebSubCallback cfg0 env_healthy (example_request ''twice'') world0)) \<le> 2
   \<and> countEvents (isMark ''abc123'')
        (snd (handleWebSubCallback cfg0 env_healthy (example_request ''twice'') world0)) \<le> 1
   \<and> countEvents (isDelivery ''A'' ''abc123'')
        (snd (handleWebSubCallback cfg0 env_healthy (example_request ''twice'') world0)) \<le> 1"
proof -
  let ?es = "[Entry (Some [''abc123'']), Entry (Some [''abc123''])]"
  let ?w' = "snd (handleWebSubCallback cfg0 env_healthy (example_request ''twice'') world0)"
  have h1: "body_text (example_request ''twice'') = Some ''twice''" by (simp add: example_request_def)
  have h2: "parseXmlPayload env_healthy ''twice'' = Some (feedOf ?es)"
    by (simp add: parseXmlPayload_def example_defs)
  have h3: "feed (feedOf ?es) = Some \<lparr>entry = Some (EntryArray ?es)\<rparr>" by (simp add: feedOf_def)
  have h4: "entry \<lparr>entry = Some (EntryArray ?es)\<rparr> = Some (EntryArray ?es)" by simp
  have r: "\<forall>x. redis_reachable env_healthy x" by (simp add: env_healthy_def)
  have n: "now ?w' \<le> now world0 + TTL_SECONDS * 1000"
    by (simp add: example_defs pipeline_defs sendToChat_eval makeRequest_eval live_description
          example_request_def)
  have z: "countEvents P world0 = 0" "fetchRounds world0 = 0" for P
    by (simp_all add: countEvents_def fetchRounds_def world0_def)
  have c: "count_list (telegram_chatIds cfg0) ''A'' = 1" by (simp add: cfg0_def)
  have l: "length (entriesOf (EntryArray ?es)) = 2" by (simp add: entriesOf_def)
  note t = one_pass_per_entry [OF h1 h2 h3 h4, of cfg0 world0, unfolded z l]
  from t have a: "countEvents isDupCheck ?w' \<le> 2" "fetchRounds ?w' \<le> 2"
      "countEvents isTagCheck ?w' \<le> 2" "countEvents isAnyMark ?w' \<le> 2"
    by simp_all
  from t have "countEvents (isDeliveryTo ''A'') ?w' \<le> 0 + 2 * count_list (telegram_chatIds cfg0) ''A''"
    by blast
  then have d: "countEvents (isDeliveryTo ''A'') ?w' \<le> 2" by (simp add: c)
  from t r n have "countEvents (isMark ''abc123'') ?w' \<le> 0 + 1
     \<and> countEvents (isDelivery ''A'' ''abc123'') ?w' \<le> 0 + count_list (telegram_chatIds cfg0) ''A''"
    by blast
  with a d show ?thesis by (simp add: c)
qed

end
